theory Spec2Isabelle
  imports Main "HOL-Library.Sublist" "HOL-Library.AList"
begin

section \<open>Calendar dates as Python's \<open>datetime\<close> has them\<close>

text \<open>
  The date engine (\<^verbatim>\<open>utils/date_utils.py\<close>) builds \<^verbatim>\<open>datetime\<close> values, compares them
  and subtracts them. Only the calendar date of a \<^verbatim>\<open>datetime\<close> matters there: every value
  the engine builds is at midnight UTC, and the reference date is stripped of its time of day
  first. A date is the triple of Python's attributes \<^verbatim>\<open>year\<close>, \<^verbatim>\<open>month\<close>, \<^verbatim>\<open>day\<close>. Python's
  integers are unbounded, so they are \<^typ>\<open>int\<close>.
\<close>

datatype date = Date (dt_year: int) (dt_month: int) (dt_day: int)

datatype py_error = ValueError

definition MINYEAR :: int where "MINYEAR = 1"
definition MAXYEAR :: int where "MAXYEAR = 9999"

definition is_leap :: "int \<Rightarrow> bool" where
  "is_leap year \<longleftrightarrow> year mod 4 = 0 \<and> (year mod 100 \<noteq> 0 \<or> year mod 400 = 0)"

definition DAYS_IN_MONTH :: "int list" where
  "DAYS_IN_MONTH = [-1, 31, 28, 31, 30, 31, 30, 31, 31, 30, 31, 30, 31]"

definition DAYS_BEFORE_MONTH :: "int list" where
  "DAYS_BEFORE_MONTH = [-1, 0, 31, 59, 90, 120, 151, 181, 212, 243, 273, 304, 334]"

text \<open>The two tables are only read at a month between 1 and 12, which the callers check.\<close>

definition days_in_month :: "int \<Rightarrow> int \<Rightarrow> int" where
  "days_in_month year month =
     (if month = 2 \<and> is_leap year then 29 else DAYS_IN_MONTH ! nat month)"

definition days_before_year :: "int \<Rightarrow> int" where
  "days_before_year year =
     (let y = year - 1 in y * 365 + y div 4 - y div 100 + y div 400)"

definition days_before_month :: "int \<Rightarrow> int \<Rightarrow> int" where
  "days_before_month year month =
     DAYS_BEFORE_MONTH ! nat month + (if month > 2 \<and> is_leap year then 1 else 0)"

text \<open>
  \<^verbatim>\<open>datetime(year, month, day, tzinfo=timezone.utc)\<close> raises \<^verbatim>\<open>ValueError\<close> unless the year
  is in \<^verbatim>\<open>MINYEAR..MAXYEAR\<close>, the month in 1..12 and the day in the month.
\<close>

definition valid_date :: "int \<Rightarrow> int \<Rightarrow> int \<Rightarrow> bool" where
  "valid_date year month day \<longleftrightarrow>
     MINYEAR \<le> year \<and> year \<le> MAXYEAR \<and> 1 \<le> month \<and> month \<le> 12 \<and>
     1 \<le> day \<and> day \<le> days_in_month year month"

definition datetime :: "int \<Rightarrow> int \<Rightarrow> int \<Rightarrow> py_error + date" where
  "datetime year month day =
     (if valid_date year month day then Inr (Date year month day) else Inl ValueError)"

definition toordinal :: "date \<Rightarrow> int" where
  "toordinal d =
     days_before_year (dt_year d) + days_before_month (dt_year d) (dt_month d) + dt_day d"

text \<open>
  Two datetimes at midnight in the same zone compare by year, month and day in this order;
  their difference is a \<^verbatim>\<open>timedelta\<close> whose \<^verbatim>\<open>days\<close> is the difference of the ordinals.
\<close>

definition date_less :: "date \<Rightarrow> date \<Rightarrow> bool" where
  "date_less a b \<longleftrightarrow>
     dt_year a < dt_year b \<or>
     (dt_year a = dt_year b \<and>
        (dt_month a < dt_month b \<or> (dt_month a = dt_month b \<and> dt_day a < dt_day b)))"

definition days_between :: "date \<Rightarrow> date \<Rightarrow> int" where
  "days_between a b = toordinal a - toordinal b"

definition well_formed_date :: "date \<Rightarrow> bool" where
  "well_formed_date d \<longleftrightarrow> valid_date (dt_year d) (dt_month d) (dt_day d)"

section \<open>The date engine\<close>

text \<open>
  A birthday is stored as the text \<^verbatim>\<open>DD/MM\<close>; the engine reads it with
  \<^verbatim>\<open>day, month = map(int, date_str.split("/"))\<close>. The embedding takes the pair
  \<open>(day, month)\<close> that this line yields. The ambient clock, which the source reads with
  \<^verbatim>\<open>datetime.now()\<close>, is the explicit first argument \<open>now\<close> of every function that
  reads it; an optional argument is an \<^typ>\<open>'a option\<close>.
\<close>

type_synonym day_month = "int \<times> int"

definition check_if_birthday_today :: "date \<Rightarrow> day_month \<Rightarrow> date option \<Rightarrow> bool" where
  "check_if_birthday_today now date_str reference_date =
     (let reference_date = (case reference_date of None \<Rightarrow> now | Some r \<Rightarrow> r);
          (day, month) = date_str
      in day = dt_day reference_date \<and> month = dt_month reference_date)"

text \<open>
  The roll-forward loop of \<^verbatim>\<open>calculate_days_until_birthday\<close>:
  \<^verbatim>\<open>while True: try: birthday_date = datetime(next_year, month, day); break
  except ValueError: next_year += 1\<close>. Nothing bounds it, so it is a partial function whose
  value \<open>None\<close> means that the loop never ends.
\<close>

partial_function (option) roll_forward :: "int \<Rightarrow> int \<Rightarrow> int \<Rightarrow> date option" where
  "roll_forward next_year month day =
     (case datetime next_year month day of
        Inr birthday_date \<Rightarrow> Some birthday_date
      | Inl ValueError \<Rightarrow> roll_forward (next_year + 1) month day)"

declare roll_forward.simps [code]

definition next_occurrence :: "day_month \<Rightarrow> date \<Rightarrow> date option" where
  "next_occurrence date_str reference_date =
     (let (day, month) = date_str
      in case datetime (dt_year reference_date) month day of
           Inr birthday_date \<Rightarrow>
             if date_less birthday_date reference_date
             then (case datetime (dt_year reference_date + 1) month day of
                     Inr birthday_date \<Rightarrow> Some birthday_date
                   | Inl ValueError \<Rightarrow> roll_forward (dt_year reference_date + 1) month day)
             else Some birthday_date
         | Inl ValueError \<Rightarrow> roll_forward (dt_year reference_date + 1) month day)"

text \<open>
  \<^verbatim>\<open>calculate_days_until_birthday\<close>: the \<^verbatim>\<open>try\<close> block covers both constructions of
  \<open>birthday_date\<close>, so a \<^verbatim>\<open>ValueError\<close> of either enters the loop, which starts at the year
  after the reference year. The result \<open>None\<close> is a call that does not return.
\<close>

definition calculate_days_until_birthday :: "date \<Rightarrow> day_month \<Rightarrow> date option \<Rightarrow> int option" where
  "calculate_days_until_birthday now date_str reference_date =
     (let reference_date = (case reference_date of None \<Rightarrow> now | Some r \<Rightarrow> r)
      in case next_occurrence date_str reference_date of
           Some birthday_date \<Rightarrow> Some (days_between birthday_date reference_date)
         | None \<Rightarrow> None)"


section \<open>Text\<close>

text \<open>
  A Python \<^verbatim>\<open>str\<close> is a \<^typ>\<open>string\<close>. A character outside ASCII stands as the bytes of its
  UTF-8 encoding, none of which is a digit, a word character or white space here: the
  classes \<^verbatim>\<open>\d\<close>, \<^verbatim>\<open>\w\<close> and \<^verbatim>\<open>\s\<close> of \<^verbatim>\<open>re\<close> and the white space of \<^verbatim>\<open>str.strip\<close> are
  those of ASCII text. \<^verbatim>\<open>a in b\<close> on two strings is \<^term>\<open>sublist a b\<close>,
  \<^verbatim>\<open>b.startswith(a)\<close> is \<^term>\<open>prefix a b\<close>.
\<close>

definition newline :: char where
  "newline = CHR 0x0A"



definition is_space :: "char \<Rightarrow> bool" where
  "is_space c \<longleftrightarrow>
     (9 \<le> (of_char c :: nat) \<and> (of_char c :: nat) \<le> 13) \<or>
     (28 \<le> (of_char c :: nat) \<and> (of_char c :: nat) \<le> 32)"

definition strip :: "string \<Rightarrow> string" where
  "strip s = dropWhile is_space (rev (dropWhile is_space (rev s)))"

text \<open>
  \<^verbatim>\<open>s.replace(old, new)\<close> replaces the occurrences of \<open>old\<close> from left to right, without
  overlap. Where \<open>old\<close> starts the text it is \<open>c # old'\<close>, so the text after it is
  \<open>drop (length old - 1) cs\<close>. An empty \<open>old\<close> puts \<open>new\<close> around every character.
\<close>

fun str_replace :: "string \<Rightarrow> string \<Rightarrow> string \<Rightarrow> string" where
  "str_replace old new [] = (if old = [] then new else [])"
| "str_replace old new (c # cs) =
     (if old = [] then new @ c # str_replace old new cs
      else if prefix old (c # cs) then new @ str_replace old new (drop (length old - 1) cs)
      else c # str_replace old new cs)"

fun join :: "string \<Rightarrow> string list \<Rightarrow> string" where
  "join sep [] = []"
| "join sep [x] = x"
| "join sep (x # y # ys) = x @ sep @ join sep (y # ys)"

text \<open>
  \<^verbatim>\<open>get_user_mention\<close> (\<^verbatim>\<open>utils/slack_utils.py\<close>). A user id is optional; Python takes
  \<^verbatim>\<open>None\<close> and the empty string for false.
\<close>

definition truthy :: "string option \<Rightarrow> bool" where
  "truthy user_id \<longleftrightarrow> (case user_id of None \<Rightarrow> False | Some s \<Rightarrow> s \<noteq> [])"

definition get_user_mention :: "string option \<Rightarrow> string" where
  "get_user_mention user_id =
     (if truthy user_id then ''<@'' @ the user_id @ ''>'' else ''Unknown User'')"

section \<open>The substitutions of \<^verbatim>\<open>fix_slack_formatting\<close>\<close>

text \<open>
  \<^verbatim>\<open>re.sub(pattern, repl, text)\<close> scans the text from left to right. At each position it
  tries the pattern; a match is replaced and the scan goes on behind it, otherwise the
  character is copied. A pattern is given here by its matcher: applied to the rest of the
  text (and told whether the position starts a line, for \<^verbatim>\<open>^\<close> under \<^verbatim>\<open>re.MULTILINE\<close>) it
  returns the replacement and the length of the match. None of the seven patterns matches
  the empty string, so a match has a length \<open>Suc k\<close>.
\<close>

fun re_sub :: "(bool \<Rightarrow> string \<Rightarrow> (string \<times> nat) option) \<Rightarrow> bool \<Rightarrow> string \<Rightarrow> string" where
  "re_sub m bol [] = []"
| "re_sub m bol (c # cs) =
     (case m bol (c # cs) of
        Some (repl, Suc k) \<Rightarrow> repl @ re_sub m ((c # cs) ! k = newline) (drop k cs)
      | _ \<Rightarrow> c # re_sub m (c = newline) cs)"

text \<open>
  The lazy group \<^verbatim>\<open>(.*?)\<close> followed by a literal: the shortest text before the first
  occurrence of the literal. The dot does not match a line feed unless \<^verbatim>\<open>re.DOTALL\<close> is
  set. The result is the group and the text behind the literal.
\<close>

fun lazy_until :: "string \<Rightarrow> bool \<Rightarrow> string \<Rightarrow> (string \<times> string) option" where
  "lazy_until lit dotall [] = (if lit = [] then Some ([], []) else None)"
| "lazy_until lit dotall (c # cs) =
     (if prefix lit (c # cs) then Some ([], drop (length lit) (c # cs))
      else if c = newline \<and> \<not> dotall then None
      else (case lazy_until lit dotall cs of
              None \<Rightarrow> None
            | Some (g, rest) \<Rightarrow> Some (c # g, rest)))"

text \<open>\<^verbatim>\<open>re.sub(r"\*\*(.*?)\*\*", r"*\1*", text)\<close>\<close>

definition match_bold :: "bool \<Rightarrow> string \<Rightarrow> (string \<times> nat) option" where
  "match_bold bol s =
     (if prefix ''**'' s
      then (case lazy_until ''**'' False (drop 2 s) of
              None \<Rightarrow> None
            | Some (g, rest) \<Rightarrow> Some (''*'' @ g @ ''*'', 2 + length g + 2))
      else None)"

text \<open>\<^verbatim>\<open>re.sub(r"__(.*?)__", r"_\1_", text)\<close>\<close>

definition match_italic :: "bool \<Rightarrow> string \<Rightarrow> (string \<times> nat) option" where
  "match_italic bol s =
     (if prefix ''__'' s
      then (case lazy_until ''__'' False (drop 2 s) of
              None \<Rightarrow> None
            | Some (g, rest) \<Rightarrow> Some (''_'' @ g @ ''_'', 2 + length g + 2))
      else None)"

text \<open>
  \<^verbatim>\<open>re.sub(r"\[(.*?)\]\((.*?)\)", r"<\2|\1>", text)\<close>. The first group grows one character at
  a time; at each \<^verbatim>\<open>](\<close> the second group is tried, and when it fails the first group
  grows on (backtracking). \<open>link_groups g1 s\<close> is that search, \<open>g1\<close> the first group so far.
\<close>

fun link_groups :: "string \<Rightarrow> string \<Rightarrow> (string \<times> string) option" where
  "link_groups g1 [] = None"
| "link_groups g1 (c # cs) =
     (case (if prefix '']('' (c # cs) then lazy_until '')'' False (drop 1 cs) else None) of
        Some (g2, rest) \<Rightarrow> Some (g1, g2)
      | None \<Rightarrow> if c = newline then None else link_groups (g1 @ [c]) cs)"

definition match_link :: "bool \<Rightarrow> string \<Rightarrow> (string \<times> nat) option" where
  "match_link bol s =
     (if prefix ''['' s
      then (case link_groups [] (drop 1 s) of
              None \<Rightarrow> None
            | Some (g1, g2) \<Rightarrow>
                Some (''<'' @ g2 @ ''|'' @ g1 @ ''>'', 1 + length g1 + 2 + length g2 + 1))
      else None)"

text \<open>
  \<^verbatim>\<open>re.sub(r"^(#{1,6})\s+(.*?)$", r"*\2*", text, flags=re.MULTILINE)\<close>. At the start of a
  line, one to six \<^verbatim>\<open>#\<close> must be followed by white space, so the whole run of \<^verbatim>\<open>#\<close> is
  taken and is at most six long; \<^verbatim>\<open>\s+\<close> takes all the white space (line feeds too); the
  lazy group then runs to the end of the line, where \<^verbatim>\<open>$\<close> matches.
\<close>

definition match_header :: "bool \<Rightarrow> string \<Rightarrow> (string \<times> nat) option" where
  "match_header bol s =
     (let hashes = takeWhile (\<lambda>c. c = CHR ''#'') s;
          s1 = dropWhile (\<lambda>c. c = CHR ''#'') s;
          spaces = takeWhile is_space s1;
          s2 = dropWhile is_space s1;
          g2 = takeWhile (\<lambda>c. c \<noteq> newline) s2
      in if bol \<and> 1 \<le> length hashes \<and> length hashes \<le> 6 \<and> 1 \<le> length spaces
         then Some (''*'' @ g2 @ ''*'', length hashes + length spaces + length g2)
         else None)"

text \<open>
  \<^verbatim>\<open>re.sub(r"<(?![@!#])(.*?)>", r"\1", text)\<close>: a \<^verbatim>\<open><\<close> that is not followed by \<^verbatim>\<open>@\<close>,
  \<^verbatim>\<open>!\<close> or \<^verbatim>\<open>#\<close>, the shortest text up to the next \<^verbatim>\<open>>\<close> on the line, and that \<^verbatim>\<open>>\<close>.
\<close>

definition match_tag :: "bool \<Rightarrow> string \<Rightarrow> (string \<times> nat) option" where
  "match_tag bol s =
     (if prefix ''<'' s \<and>
         \<not> (prefix ''<@'' s \<or> prefix ''<!'' s \<or> prefix ''<#'' s)
      then (case lazy_until ''>'' False (drop 1 s) of
              None \<Rightarrow> None
            | Some (g, rest) \<Rightarrow> Some (g, 1 + length g + 1))
      else None)"

text \<open>\<^verbatim>\<open>re.sub(r"```(.*?)```", r"`\1`", text, flags=re.DOTALL)\<close>\<close>

definition match_code :: "bool \<Rightarrow> string \<Rightarrow> (string \<times> nat) option" where
  "match_code bol s =
     (if prefix ''```'' s
      then (case lazy_until ''```'' True (drop 3 s) of
              None \<Rightarrow> None
            | Some (g, rest) \<Rightarrow> Some (''`'' @ g @ ''`'', 3 + length g + 3))
      else None)"

text \<open>\<^verbatim>\<open>re.sub(r"^>\s+(.*?)$", r">>>\1", text, flags=re.MULTILINE)\<close>\<close>

definition match_quote :: "bool \<Rightarrow> string \<Rightarrow> (string \<times> nat) option" where
  "match_quote bol s =
     (let s1 = drop 1 s;
          spaces = takeWhile is_space s1;
          s2 = dropWhile is_space s1;
          g = takeWhile (\<lambda>c. c \<noteq> newline) s2
      in if bol \<and> prefix ''>'' s \<and> 1 \<le> length spaces
         then Some (''>>>'' @ g, 1 + length spaces + length g)
         else None)"

text \<open>\<^verbatim>\<open>fix_slack_formatting\<close> (\<^verbatim>\<open>utils/message_generator.py\<close>): the seven substitutions in order.\<close>

definition fix_slack_formatting :: "string \<Rightarrow> string" where
  "fix_slack_formatting text =
     (let text = re_sub match_bold True text;
          text = re_sub match_italic True text;
          text = re_sub match_link True text;
          text = re_sub match_header True text;
          text = re_sub match_tag True text;
          text = re_sub match_code True text;
          text = re_sub match_quote True text
      in text)"
definition bullet :: string where
  \<open>bullet = [CHR 0xE2, CHR 0x80, CHR 0xA2]\<close>

definition BACKUP_MESSAGE_1 :: string where
  \<open>BACKUP_MESSAGE_1 =
     ''\<newline>'' @
     '':birthday: HAPPY BIRTHDAY {name}!!! :tada:\<newline>'' @
     ''\<newline>'' @
     ''<!channel> We\'ve got a birthday to celebrate! \<newline>'' @
     ''\<newline>'' @
     '':cake: :cake: :cake: :cake: :cake: :cake: :cake:\<newline>'' @
     ''\<newline>'' @
     ''*Let the festivities begin!* :confetti_ball: \<newline>'' @
     ''\<newline>'' @
     ''Wishing you a day filled with:\<newline>'' @
     bullet @ '' Joy :smile:\<newline>'' @
     bullet @ '' Laughter :joy:\<newline>'' @
     bullet @ '' _Way too much_ cake :cake:\<newline>'' @
     bullet @ '' Zero work emails :no_bell:\<newline>'' @
     ''\<newline>'' @
     ''Any special celebration plans for your big day? :sparkles:\<newline>'' @
     ''\<newline>'' @
     '':point_down: Drop your birthday wishes below! :point_down:\<newline>'' @
     ''    ''\<close>

definition BACKUP_MESSAGE_2 :: string where
  \<open>BACKUP_MESSAGE_2 =
     ''\<newline>'' @
     '':rotating_light: ATTENTION <!channel> :rotating_light:\<newline>'' @
     ''\<newline>'' @
     ''IT\'S {name}\'s BIRTHDAY!!! :birthday: \<newline>'' @
     ''\<newline>'' @
     '':star2: :star2: :star2: :star2: :star2:\<newline>'' @
     ''\<newline>'' @
     ''Time to celebrate *YOU* and all the awesome you bring to our team! :muscle:\<newline>'' @
     ''\<newline>'' @
     bullet @ '' Your jokes :laughing:\<newline>'' @
     bullet @ '' Your hard work :computer:\<newline>'' @
     bullet @ '' Your brilliant ideas :bulb:\<newline>'' @
     bullet @ '' Just being YOU :heart:\<newline>'' @
     ''\<newline>'' @
     ''Hope your day is as amazing as you are! :star:\<newline>'' @
     ''\<newline>'' @
     ''So... how are you planning to celebrate? :thinking_face:\<newline>'' @
     ''    ''\<close>

definition BACKUP_MESSAGE_3 :: string where
  \<open>BACKUP_MESSAGE_3 =
     ''\<newline>'' @
     '':alarm_clock: *Birthday Alert* :alarm_clock:\<newline>'' @
     ''\<newline>'' @
     ''<!channel> Everyone drop what you\'re doing because...\<newline>'' @
     ''\<newline>'' @
     ''{name} is having a BIRTHDAY today! :birthday:\<newline>'' @
     ''\<newline>'' @
     '':cake: :gift: :balloon: :confetti_ball: :cake: :gift: :balloon:\<newline>'' @
     ''\<newline>'' @
     ''Wishing you:\<newline>'' @
     bullet @ '' Mountains of cake :mountain:\<newline>'' @
     bullet @ '' Oceans of presents :ocean:\<newline>'' @
     bullet @ '' Absolutely *zero* work emails! :no_bell:\<newline>'' @
     ''\<newline>'' @
     ''What\'s on the birthday agenda today? :calendar:\<newline>'' @
     ''\<newline>'' @
     '':point_right: Reply with your best birthday GIF! :point_left:\<newline>'' @
     ''    ''\<close>

definition BACKUP_MESSAGE_4 :: string where
  \<open>BACKUP_MESSAGE_4 =
     ''\<newline>'' @
     ''Whoop whoop! :tada: \<newline>'' @
     ''\<newline>'' @
     '':loudspeaker: <!channel> Announcement! :loudspeaker:\<newline>'' @
     ''\<newline>'' @
     ''It\'s {name}\'s special day! :birthday:\<newline>'' @
     ''\<newline>'' @
     '':sparkles: :sparkles: :sparkles: :sparkles: :sparkles:\<newline>'' @
     ''\<newline>'' @
     ''May your birthday be filled with:\<newline>'' @
     bullet @ '' Cake that\'s *just right* :cake:\<newline>'' @
     bullet @ '' Presents that don\'t need returning :gift:\<newline>'' @
     bullet @ '' Birthday wishes that actually come true! :sparkles:\<newline>'' @
     ''\<newline>'' @
     ''How are you celebrating this year? :cake:\<newline>'' @
     ''\<newline>'' @
     '':clap: :clap: :clap: :clap: :clap:\<newline>'' @
     ''    ''\<close>

definition BACKUP_MESSAGE_5 :: string where
  \<open>BACKUP_MESSAGE_5 =
     ''\<newline>'' @
     '':rotating_light: SPECIAL BIRTHDAY ANNOUNCEMENT :rotating_light:\<newline>'' @
     ''\<newline>'' @
     ''<!channel> HEY EVERYONE! \<newline>'' @
     ''\<newline>'' @
     '':arrow_down: :arrow_down: :arrow_down:\<newline>'' @
     ''It\'s {name}\'s birthday!\<newline>'' @
     '':arrow_up: :arrow_up: :arrow_up:\<newline>'' @
     ''\<newline>'' @
     '':birthday: :confetti_ball: :birthday: :confetti_ball:\<newline>'' @
     ''\<newline>'' @
     ''Time to shower them with:\<newline>'' @
     bullet @ '' ~Work assignments~ BIRTHDAY WISHES instead! :grin:\<newline>'' @
     bullet @ '' Your most ridiculous emojis :stuck_out_tongue_closed_eyes:\<newline>'' @
     bullet @ '' Virtual high-fives :raised_hands:\<newline>'' @
     ''\<newline>'' @
     ''Hope your special day is absolutely *fantastic*! :star2: \<newline>'' @
     ''\<newline>'' @
     ''Any exciting birthday plans to share? :eyes:\<newline>'' @
     ''    ''\<close>

definition BACKUP_MESSAGES :: "string list" where
  "BACKUP_MESSAGES =
     [BACKUP_MESSAGE_1, BACKUP_MESSAGE_2, BACKUP_MESSAGE_3, BACKUP_MESSAGE_4, BACKUP_MESSAGE_5]"


section \<open>The message composer\<close>

text \<open>
  \<^verbatim>\<open>completion\<close> (\<^verbatim>\<open>utils/message_generator.py\<close>). The chat messages sent to the generative
  backend are pairs of a role and a text. The backend call
  \<^verbatim>\<open>client.chat.completions.create(model=MODEL, messages=template).choices[0].message.content\<close>
  either gives a text or raises; it is a parameter \<open>generate\<close> of the embedding, a function
  of the messages it is sent. Whatever is raised inside the \<^verbatim>\<open>try\<close> block, by the call
  or by the lines after it, is caught by the same \<^verbatim>\<open>except Exception\<close>, so \<open>Raises\<close>
  stands for all of it.
\<close>

datatype role = System | User | Assistant

type_synonym message = "role \<times> string"

datatype backend_outcome = Reply string | Raises

text \<open>
  The way by which a text was returned: validated (\<open>Generated\<close>), returned without
  validation after the last retry (\<open>Unvalidated\<close>), taken from \<^verbatim>\<open>BACKUP_MESSAGES\<close>
  (\<open>Fallback\<close>), or built by \<^verbatim>\<open>create_birthday_announcement\<close> behind the loop
  (\<open>Unexpected_flow\<close>). The source returns the text alone; the way and the number of backend
  calls made are kept beside it to state properties of the control flow.
\<close>

datatype provenance = Generated | Unvalidated | Fallback | Unexpected_flow

record composed =
  msg_text :: string
  msg_path :: provenance
  backend_calls :: nat

text \<open>
  The validation of a reply: \<^verbatim>\<open>is_valid\<close> and \<^verbatim>\<open>validation_errors\<close>.
\<close>

definition validation_errors :: "string option \<Rightarrow> string \<Rightarrow> string list" where
  "validation_errors user_id reply =
     (if truthy user_id \<and> \<not> sublist (get_user_mention user_id) reply
      then [''Missing user mention '' @ get_user_mention user_id] else []) @
     (if \<not> sublist ''<!channel>'' reply
      then [''Missing channel mention <!channel>''] else [])"

definition is_valid :: "string option \<Rightarrow> string \<Rightarrow> bool" where
  "is_valid user_id reply \<longleftrightarrow>
     \<not> (truthy user_id \<and> \<not> sublist (get_user_mention user_id) reply) \<and>
     \<not> (\<not> sublist ''<!channel>'' reply)"

definition clarification :: "string \<Rightarrow> string \<Rightarrow> string" where
  "clarification error_msg user_mention =
     ''The message you provided is missing: '' @ error_msg @
     ''. Please regenerate the message including both the user mention '' @ user_mention @
     '' and channel mention <!channel> formats exactly as specified.''"

text \<open>
  The fallback of the \<^verbatim>\<open>except\<close> branch. \<^verbatim>\<open>random.choice(BACKUP_MESSAGES)\<close> is the element
  at an index below the length of the list; the index drawn is the parameter \<open>choice\<close>.
\<close>

definition fallback_message :: "nat \<Rightarrow> string \<Rightarrow> string option \<Rightarrow> string" where
  "fallback_message choice name user_id =
     (let random_message = BACKUP_MESSAGES ! (choice mod length BACKUP_MESSAGES);
          user_mention = (if truthy user_id then get_user_mention user_id else name);
          mention_text = (if truthy user_id then user_mention else name)
      in str_replace ''{name}'' mention_text random_message)"

text \<open>
  The retry loop \<^verbatim>\<open>while retry_count <= max_retries\<close>. \<open>template\<close> is the list of messages
  built so far, \<open>calls\<close> counts the backend calls already made, and \<open>announcement\<close> is the
  text that \<^verbatim>\<open>create_birthday_announcement(user_id, name, birth_date, birth_year)\<close> gives,
  which is returned when the loop is left without a \<^verbatim>\<open>return\<close>.
\<close>

function completion_loop ::
  "(message list \<Rightarrow> backend_outcome) \<Rightarrow> nat \<Rightarrow> string \<Rightarrow> string \<Rightarrow> string option \<Rightarrow> int \<Rightarrow>
   message list \<Rightarrow> int \<Rightarrow> nat \<Rightarrow> composed" where
  "completion_loop generate choice announcement name user_id max_retries template retry_count calls =
     (if retry_count \<le> max_retries
      then (case generate template of
              Raises \<Rightarrow>
                \<lparr>msg_text = fallback_message choice name user_id, msg_path = Fallback,
                 backend_calls = Suc calls\<rparr>
            | Reply raw \<Rightarrow>
                (let reply = fix_slack_formatting raw
                 in if is_valid user_id reply
                    then \<lparr>msg_text = reply, msg_path = Generated, backend_calls = Suc calls\<rparr>
                    else if retry_count < max_retries
                    then (let error_msg = join '', '' (validation_errors user_id reply);
                              user_mention =
                                (if truthy user_id then get_user_mention user_id else name)
                          in completion_loop generate choice announcement name user_id max_retries
                               (template @ [(Assistant, reply),
                                            (User, clarification error_msg user_mention)])
                               (retry_count + 1) (Suc calls))
                    else \<lparr>msg_text = reply, msg_path = Unvalidated, backend_calls = Suc calls\<rparr>))
      else \<lparr>msg_text = announcement, msg_path = Unexpected_flow, backend_calls = calls\<rparr>)"
  by pat_completeness auto
termination
  by (relation "measure (\<lambda>(generate, choice, announcement, name, user_id, max_retries,
        template, retry_count, calls). nat (max_retries + 1 - retry_count))") auto

text \<open>
  \<^verbatim>\<open>completion(name, date, user_id, birth_date, birth_year, max_retries)\<close>. The messages
  before the loop (the system prompt of the current personality and the user request, with
  its random sample of emojis and the current date) are the parameter \<open>template\<close>.
\<close>

definition completion ::
  "(message list \<Rightarrow> backend_outcome) \<Rightarrow> nat \<Rightarrow> string \<Rightarrow> message list \<Rightarrow>
   string \<Rightarrow> string option \<Rightarrow> int \<Rightarrow> composed" where
  "completion generate choice announcement template name user_id max_retries =
     completion_loop generate choice announcement name user_id max_retries template 0 0"

section \<open>Finding a date in a message\<close>



definition char_at :: "string \<Rightarrow> nat \<Rightarrow> char option" where
  "char_at s i = (if i < length s then Some (s ! i) else None)"












section \<open>Dates in words and star signs\<close>

text \<open>\<^verbatim>\<open>str(n)\<close> of an integer, for the f-strings.\<close>

function show_nat :: "nat \<Rightarrow> string" where
  "show_nat n = (if n < 10 then [char_of (48 + n)] else show_nat (n div 10) @ [char_of (48 + n mod 10)])"
  by pat_completeness auto
termination
  by (relation "measure id") auto

definition show_int :: "int \<Rightarrow> string" where
  "show_int i = (if i < 0 then ''-'' @ show_nat (nat (- i)) else show_nat (nat i))"

definition month_name :: "string list" where
  "month_name = ['''', ''January'', ''February'', ''March'', ''April'', ''May'', ''June'', ''July'',
     ''August'', ''September'', ''October'', ''November'', ''December'']"

text \<open>
  \<^verbatim>\<open>date_to_words\<close> parses the stored \<^verbatim>\<open>DD/MM\<close> with \<^verbatim>\<open>datetime.strptime(date, "%d/%m")\<close>,
  outside any \<^verbatim>\<open>try\<close>: the \<^verbatim>\<open>ValueError\<close> of a day that the year 1900 does not have
  leaves the function. \<^verbatim>\<open>if year\<close> is false for \<^verbatim>\<open>None\<close> and for 0.
\<close>

definition date_to_words :: "day_month \<Rightarrow> int option \<Rightarrow> py_error + string" where
  "date_to_words date year =
     (let (d, m) = date
      in case datetime 1900 m d of
           Inl e \<Rightarrow> Inl e
         | Inr date_obj \<Rightarrow>
             (let day = dt_day date_obj;
                  day_str =
                    (if 11 \<le> day \<and> day \<le> 13 then show_int day @ ''th''
                     else show_int day @
                       (if day mod 10 = 1 then ''st'' else if day mod 10 = 2 then ''nd''
                        else if day mod 10 = 3 then ''rd'' else ''th''));
                  month = month_name ! nat (dt_month date_obj)
              in case year of
                   None \<Rightarrow> Inr (day_str @ '' of '' @ month)
                 | Some y \<Rightarrow>
                     if y \<noteq> 0 then Inr (day_str @ '' of '' @ month @ '', '' @ show_int y)
                     else Inr (day_str @ '' of '' @ month)))"

definition get_star_sign :: "day_month \<Rightarrow> string" where
  "get_star_sign date_str =
     (let (day, month) = date_str
      in if (month = 1 \<and> day \<ge> 20) \<or> (month = 2 \<and> day \<le> 18) then ''Aquarius''
         else if (month = 2 \<and> day \<ge> 19) \<or> (month = 3 \<and> day \<le> 20) then ''Pisces''
         else if (month = 3 \<and> day \<ge> 21) \<or> (month = 4 \<and> day \<le> 19) then ''Aries''
         else if (month = 4 \<and> day \<ge> 20) \<or> (month = 5 \<and> day \<le> 20) then ''Taurus''
         else if (month = 5 \<and> day \<ge> 21) \<or> (month = 6 \<and> day \<le> 20) then ''Gemini''
         else if (month = 6 \<and> day \<ge> 21) \<or> (month = 7 \<and> day \<le> 22) then ''Cancer''
         else if (month = 7 \<and> day \<ge> 23) \<or> (month = 8 \<and> day \<le> 22) then ''Leo''
         else if (month = 8 \<and> day \<ge> 23) \<or> (month = 9 \<and> day \<le> 22) then ''Virgo''
         else if (month = 9 \<and> day \<ge> 23) \<or> (month = 10 \<and> day \<le> 22) then ''Libra''
         else if (month = 10 \<and> day \<ge> 23) \<or> (month = 11 \<and> day \<le> 21) then ''Scorpio''
         else if (month = 11 \<and> day \<ge> 22) \<or> (month = 12 \<and> day \<le> 21) then ''Sagittarius''
         else ''Capricorn'')"




section \<open>The announcement ledger\<close>

text \<open>
  The tracking directory (\<^verbatim>\<open>TRACKING_DIR\<close>) is the list of its entries in the order in
  which \<^verbatim>\<open>os.listdir\<close> gives them, each name once. An entry is a file with its text, or
  an entry that the operating system refuses to open or to remove (a directory of that
  name, a file without the permission): every operation on it raises \<^verbatim>\<open>OSError\<close>, which
  the three ledger functions catch and log. The directory itself exists, as
  \<^verbatim>\<open>config/__init__.py\<close> creates it. The local date that each function reads from
  \<^verbatim>\<open>datetime.now()\<close> is its argument \<open>today\<close>, already formatted by \<^verbatim>\<open>"%Y-%m-%d"\<close>.
\<close>

datatype entry = File string | Denied

type_synonym directory = "(string \<times> entry) list"

definition announced_file :: "string \<Rightarrow> string" where
  "announced_file today = ''announced_'' @ today @ ''.txt''"

text \<open>
  The lines of a text file as iterating over it gives them: each ends with its line feed,
  but for the last one when the text does not end with one. A carriage return ends a line
  too (universal newlines); the empty line this adds between a carriage return and a line
  feed is dropped by the caller with every other blank line.
\<close>

fun split_lines :: "string \<Rightarrow> string \<Rightarrow> string list" where
  "split_lines cur [] = (if cur = [] then [] else [cur])"
| "split_lines cur (c # cs) =
     (if c = newline \<or> c = CHR 0x0D then (cur @ [newline]) # split_lines [] cs
      else split_lines (cur @ [c]) cs)"

definition get_announced_birthdays_today :: "string \<Rightarrow> directory \<Rightarrow> string list" where
  "get_announced_birthdays_today today dir =
     (case map_of dir (announced_file today) of
        None \<Rightarrow> []
      | Some (File content) \<Rightarrow>
          map strip (filter (\<lambda>line. strip line \<noteq> []) (split_lines [] content))
      | Some Denied \<Rightarrow> [])"

text \<open>\<^verbatim>\<open>open(announced_file, "a")\<close> creates the file when it is missing.\<close>

definition mark_birthday_announced :: "string \<Rightarrow> string \<Rightarrow> directory \<Rightarrow> directory" where
  "mark_birthday_announced today user_id dir =
     (case map_of dir (announced_file today) of
        None \<Rightarrow> AList.update (announced_file today) (File (user_id @ [newline])) dir
      | Some (File content) \<Rightarrow>
          AList.update (announced_file today) (File (content @ user_id @ [newline])) dir
      | Some Denied \<Rightarrow> dir)"

text \<open>
  The loop of \<^verbatim>\<open>cleanup_old_announcement_files\<close> runs over the names that \<^verbatim>\<open>os.listdir\<close>
  returned. The \<^verbatim>\<open>try\<close> is around the whole loop: the first \<^verbatim>\<open>os.remove\<close> that raises ends
  it, and the names behind are not looked at.
\<close>

fun cleanup_loop :: "string \<Rightarrow> string list \<Rightarrow> directory \<Rightarrow> directory" where
  "cleanup_loop today [] dir = dir"
| "cleanup_loop today (filename # rest) dir =
     (if prefix ''announced_'' filename \<and> filename \<noteq> announced_file today
      then (case map_of dir filename of
              Some (File content) \<Rightarrow> cleanup_loop today rest (AList.delete filename dir)
            | Some Denied \<Rightarrow> dir
            | None \<Rightarrow> dir)
      else cleanup_loop today rest dir)"

definition cleanup_old_announcement_files :: "string \<Rightarrow> directory \<Rightarrow> directory" where
  "cleanup_old_announcement_files today dir = cleanup_loop today (map fst dir) dir"

section \<open>The daily scheduler\<close>

text \<open>
  What \<^verbatim>\<open>daily\<close> (\<^verbatim>\<open>services/birthday.py\<close>) calls outside the repository is a parameter:
  the user names of the chat platform, the messages that \<^verbatim>\<open>completion\<close> builds before its
  loop, the generative backend, the index that \<^verbatim>\<open>random.choice\<close> draws, the text of
  \<^verbatim>\<open>create_birthday_announcement\<close>, and \<^verbatim>\<open>chat_postMessage\<close>, which posts the text
  (\<open>True\<close>) or raises the \<^verbatim>\<open>SlackApiError\<close> that \<^verbatim>\<open>send_message\<close> catches (\<open>False\<close>).
\<close>

record env =
  env_username :: "string \<Rightarrow> string"
  env_template :: "string \<Rightarrow> string \<Rightarrow> string \<Rightarrow> day_month \<Rightarrow> int option \<Rightarrow> message list"
  env_generate :: "message list \<Rightarrow> backend_outcome"
  env_choice :: "string \<Rightarrow> nat"
  env_announcement :: "string \<Rightarrow> string \<Rightarrow> day_month \<Rightarrow> int option \<Rightarrow> string"
  env_post :: "string \<Rightarrow> string \<Rightarrow> bool"

record birthday_data =
  bd_date :: day_month
  bd_year :: "int option"

text \<open>
  The state that a run changes is the tracking directory. Beside it the embedding keeps the
  trace of the calls that matter to the ledger: the rotation, the reading of the announced
  list, each announcement sent (for whom, the text, and whether it was delivered) and each
  call of \<^verbatim>\<open>mark_birthday_announced\<close>.
\<close>

datatype event =
  Cleaned
| Read_announced "string list"
| Announced string string bool
| Marked string

record world =
  tracking :: directory
  trace :: "event list"

definition send_message :: "env \<Rightarrow> string \<Rightarrow> string \<Rightarrow> bool" where
  "send_message e channel text = env_post e channel text"

text \<open>
  \<^verbatim>\<open>send_birthday_announcement\<close> calls \<^verbatim>\<open>completion\<close> with its default of two retries and
  sends the text. Its \<^verbatim>\<open>except\<close> branch is for what \<^verbatim>\<open>completion\<close> raises before its loop
  and for errors of the client other than \<^verbatim>\<open>SlackApiError\<close>; the parameters above raise
  neither. The result of \<^verbatim>\<open>send_message\<close> is not looked at.
\<close>

definition send_birthday_announcement ::
  "env \<Rightarrow> string \<Rightarrow> string \<Rightarrow> string \<Rightarrow> day_month \<Rightarrow> string \<Rightarrow> int option \<Rightarrow> world \<Rightarrow> world" where
  "send_birthday_announcement e channel username user_id date date_words year w =
     (let ai_message =
            msg_text (completion (env_generate e) (env_choice e user_id)
              (env_announcement e user_id username date year)
              (env_template e username date_words user_id date year)
              username (Some user_id) 2);
          delivered = send_message e channel ai_message
      in w\<lparr>trace := trace w @ [Announced user_id ai_message delivered]\<rparr>)"

text \<open>
  The loop of \<^verbatim>\<open>daily\<close> over \<^verbatim>\<open>birthdays.items()\<close>, a dictionary, so each user id once.
  \<^verbatim>\<open>date_to_words\<close> is called outside any \<^verbatim>\<open>try\<close>: its \<^verbatim>\<open>ValueError\<close> ends the run, with the
  state as it is then.
\<close>

fun daily_loop ::
  "env \<Rightarrow> string \<Rightarrow> string \<Rightarrow> date \<Rightarrow> string list \<Rightarrow> (string \<times> birthday_data) list \<Rightarrow> int \<Rightarrow>
   world \<Rightarrow> (py_error + int) \<times> world" where
  "daily_loop e channel today moment already_announced [] birthday_count w =
     (Inr birthday_count, w)"
| "daily_loop e channel today moment already_announced ((user_id, birthday_data) # rest)
     birthday_count w =
     (if user_id \<in> set already_announced
      then daily_loop e channel today moment already_announced rest (birthday_count + 1) w
      else if check_if_birthday_today moment (bd_date birthday_data) (Some moment)
      then (let username = env_username e user_id
            in case date_to_words (bd_date birthday_data) (bd_year birthday_data) of
                 Inl err \<Rightarrow> (Inl err, w)
               | Inr date_words \<Rightarrow>
                   (let w1 = send_birthday_announcement e channel username user_id
                               (bd_date birthday_data) date_words (bd_year birthday_data) w;
                        w2 = w1\<lparr>tracking := mark_birthday_announced today user_id (tracking w1),
                                 trace := trace w1 @ [Marked user_id]\<rparr>
                    in daily_loop e channel today moment already_announced rest
                         (birthday_count + 1) w2))
      else daily_loop e channel today moment already_announced rest birthday_count w)"

definition daily ::
  "env \<Rightarrow> string \<Rightarrow> string \<Rightarrow> date \<Rightarrow> (string \<times> birthday_data) list \<Rightarrow> world \<Rightarrow>
   (py_error + int) \<times> world" where
  "daily e channel today moment birthdays w =
     (let w1 = w\<lparr>tracking := cleanup_old_announcement_files today (tracking w),
                 trace := trace w @ [Cleaned]\<rparr>;
          already_announced = get_announced_birthdays_today today (tracking w1);
          w2 = w1\<lparr>trace := trace w1 @ [Read_announced already_announced]\<rparr>
      in daily_loop e channel today moment already_announced birthdays 0 w2)"

text \<open>What is counted in a trace: the announcements delivered for a user, and all events about a user.\<close>

fun is_delivery :: "string \<Rightarrow> event \<Rightarrow> bool" where
  "is_delivery u (Announced v t d) = (v = u \<and> d)"
| "is_delivery u ev = False"

fun concerns :: "string \<Rightarrow> event \<Rightarrow> bool" where
  "concerns u (Announced v t d) = (v = u)"
| "concerns u (Marked v) = (v = u)"
| "concerns u ev = False"


definition markers :: "string \<Rightarrow> string \<Rightarrow> directory \<Rightarrow> nat" where
  "markers today u dir = count_list (get_announced_birthdays_today today dir) u"

section \<open>Notions used in the statements about the ledger and the scheduler\<close>

text \<open>
  A name is stale when it is a marker name other than today's. The text of today's marker
  file is empty when the file is missing. The list that \<^verbatim>\<open>get_announced_birthdays_today\<close>
  reads from a text is \<open>announced_lines\<close>.
\<close>

definition stale :: "string \<Rightarrow> string \<Rightarrow> bool" where
  "stale today filename \<longleftrightarrow> prefix ''announced_'' filename \<and> filename \<noteq> announced_file today"


definition announced_lines :: "string \<Rightarrow> string list" where
  "announced_lines content =
     map strip (filter (\<lambda>line. strip line \<noteq> []) (split_lines [] content))"



text \<open>
  For an entry of \<^verbatim>\<open>birthdays\<close>: whether the loop of \<^verbatim>\<open>daily\<close> announces it (\<open>due\<close>),
  the text it then sends, and the two events this adds to the trace.
\<close>

definition due :: "date \<Rightarrow> string list \<Rightarrow> string \<times> birthday_data \<Rightarrow> bool" where
  "due moment already_announced x \<longleftrightarrow>
     fst x \<notin> set already_announced \<and>
     check_if_birthday_today moment (bd_date (snd x)) (Some moment)"

definition announcement_text :: "env \<Rightarrow> string \<Rightarrow> birthday_data \<Rightarrow> string" where
  "announcement_text e user_id birthday_data =
     (case date_to_words (bd_date birthday_data) (bd_year birthday_data) of
        Inl err \<Rightarrow> []
      | Inr date_words \<Rightarrow>
          msg_text (completion (env_generate e) (env_choice e user_id)
            (env_announcement e user_id (env_username e user_id) (bd_date birthday_data)
               (bd_year birthday_data))
            (env_template e (env_username e user_id) date_words user_id (bd_date birthday_data)
               (bd_year birthday_data))
            (env_username e user_id) (Some user_id) 2))"

definition announce_events :: "env \<Rightarrow> string \<Rightarrow> string \<times> birthday_data \<Rightarrow> event list" where
  "announce_events e channel x =
     [Announced (fst x) (announcement_text e (fst x) (snd x))
        (env_post e channel (announcement_text e (fst x) (snd x))),
      Marked (fst x)]"

section \<open>Concrete inputs of the examples\<close>

text \<open>A backend that is down, and one whose replies never hold the two tokens.\<close>

definition backend_down :: "message list \<Rightarrow> backend_outcome" where
  "backend_down template = Raises"

definition backend_without_tokens :: "message list \<Rightarrow> backend_outcome" where
  "backend_without_tokens template = Reply ''Happy birthday!''"

definition backend_with_tokens :: "message list \<Rightarrow> backend_outcome" where
  "backend_with_tokens template = Reply ''Happy **birthday** <@U1>! <!channel>''"

text \<open>
  An environment whose backend is down, so that every text is the first fallback message,
  with a chat platform that accepts every post, and the same with a chat platform that
  refuses every post.
\<close>

definition env_chat_up :: env where
  "env_chat_up =
     \<lparr>env_username = (\<lambda>user_id. ''Ann''),
      env_template = (\<lambda>name date_words user_id date year. []),
      env_generate = backend_down,
      env_choice = (\<lambda>user_id. 0),
      env_announcement = (\<lambda>user_id name date year. ''none''),
      env_post = (\<lambda>channel text. True)\<rparr>"


text \<open>One subject, born on 1 June 1990, and one born on 29 February 2000.\<close>

definition june_birthdays :: "(string \<times> birthday_data) list" where
  "june_birthdays = [(''U1'', \<lparr>bd_date = (1, 6), bd_year = Some 1990\<rparr>)]"

definition leap_birthdays :: "(string \<times> birthday_data) list" where
  "leap_birthdays = [(''U2'', \<lparr>bd_date = (29, 2), bd_year = Some 2000\<rparr>)]"

text \<open>
  A tracking directory whose first entry is a stale name that cannot be removed, before a
  stale marker file; one in which today's marker cannot be opened; and an empty one.
\<close>

definition stuck_directory :: directory where
  "stuck_directory =
     [(''announced_2024-05-30.txt'', Denied),
      (''announced_2024-05-31.txt'', File (''U7'' @ [newline]))]"


definition empty_world :: world where
  "empty_world = \<lparr>tracking = [], trace = []\<rparr>"

section \<open>Calendar arithmetic\<close>

lemma div_step:
  assumes "0 < (k::int)"
  shows "y div k = (y - 1) div k + (if y mod k = 0 then 1 else 0)"
proof -
  define q r where "q = y div k" and "r = y mod k"
  have y: "y = r + q * k" by (simp add: q_def r_def)
  have r: "0 \<le> r" "r < k" using assms by (simp_all add: r_def)
  have k: "k \<noteq> 0" using assms by simp
  show ?thesis
  proof (cases "r = 0")
    case True
    have "y - 1 = (k - 1) + (q - 1) * k" using y True by (simp add: algebra_simps)
    then have "(y - 1) div k = ((k - 1) + (q - 1) * k) div k" by (simp only:)
    also have "\<dots> = (q - 1) + (k - 1) div k" using k by simp
    also have "(k - 1) div k = 0" using assms by simp
    finally show ?thesis using True by (simp add: q_def r_def)
  next
    case False
    have "y - 1 = (r - 1) + q * k" using y by simp
    then have "(y - 1) div k = ((r - 1) + q * k) div k" by (simp only:)
    also have "\<dots> = q + (r - 1) div k" using k by simp
    also have "(r - 1) div k = 0" using r False by simp
    finally show ?thesis using False by (simp add: q_def r_def)
  qed
qed

lemma mod_100_4: "(y::int) mod 100 = 0 \<Longrightarrow> y mod 4 = 0"
proof -
  assume "y mod 100 = 0"
  then have "100 dvd y" by (simp add: mod_eq_0_iff_dvd)
  moreover have "(4::int) dvd 100" by simp
  ultimately have "4 dvd y" by (rule dvd_trans [rotated])
  then show ?thesis by simp
qed

lemma mod_400_100: "(y::int) mod 400 = 0 \<Longrightarrow> y mod 100 = 0"
proof -
  assume "y mod 400 = 0"
  then have "400 dvd y" by (simp add: mod_eq_0_iff_dvd)
  moreover have "(100::int) dvd 400" by simp
  ultimately have "100 dvd y" by (rule dvd_trans [rotated])
  then show ?thesis by simp
qed

lemma days_before_year_step:
  "days_before_year (y + 1) = days_before_year y + (if is_leap y then 366 else 365)"
proof -
  define c4 c100 c400 where "c4 \<longleftrightarrow> y mod 4 = 0" and "c100 \<longleftrightarrow> y mod 100 = 0" and "c400 \<longleftrightarrow> y mod 400 = 0"
  define a4 a100 a400 where "a4 = (y - 1) div 4" and "a100 = (y - 1) div 100" and "a400 = (y - 1) div 400"
  define b4 b100 b400 where "b4 = y div 4" and "b100 = y div 100" and "b400 = y div 400"
  have s4: "b4 = a4 + (if c4 then 1 else 0)"
    unfolding b4_def a4_def c4_def by (rule div_step) simp
  have s100: "b100 = a100 + (if c100 then 1 else 0)"
    unfolding b100_def a100_def c100_def by (rule div_step) simp
  have s400: "b400 = a400 + (if c400 then 1 else 0)"
    unfolding b400_def a400_def c400_def by (rule div_step) simp
  have i1: "c400 \<longrightarrow> c100" unfolding c400_def c100_def by (rule impI, erule mod_400_100)
  have i2: "c100 \<longrightarrow> c4" unfolding c4_def c100_def by (rule impI, erule mod_100_4)
  have l: "is_leap y \<longleftrightarrow> c4 \<and> (\<not> c100 \<or> c400)"
    unfolding is_leap_def c4_def c100_def c400_def by (rule refl)
  have e1: "days_before_year (y + 1) = y * 365 + b4 - b100 + b400"
    unfolding days_before_year_def Let_def b4_def b100_def b400_def by (simp only: add_diff_cancel_right')
  have e2: "days_before_year y = (y - 1) * 365 + a4 - a100 + a400"
    unfolding days_before_year_def Let_def a4_def a100_def a400_def by (rule refl)
  show ?thesis
    unfolding e1 e2 l s4 s100 s400 using i1 i2 by (cases c4; cases c100; cases c400; simp add: algebra_simps)
qed

lemma month_cases:
  "1 \<le> (m::int) \<Longrightarrow> m \<le> 12 \<Longrightarrow>
     m = 1 \<or> m = 2 \<or> m = 3 \<or> m = 4 \<or> m = 5 \<or> m = 6 \<or> m = 7 \<or> m = 8 \<or> m = 9 \<or> m = 10 \<or> m = 11 \<or> m = 12"
  by arith

lemma days_before_month_step:
  assumes "1 \<le> m" "m < 12"
  shows "days_before_month y (m + 1) = days_before_month y m + days_in_month y m"
proof -
  have "m = 1 \<or> m = 2 \<or> m = 3 \<or> m = 4 \<or> m = 5 \<or> m = 6 \<or> m = 7 \<or> m = 8 \<or> m = 9 \<or> m = 10 \<or> m = 11"
    using assms by arith
  then show ?thesis
    by (elim disjE) (simp_all add: days_before_month_def days_in_month_def DAYS_BEFORE_MONTH_def DAYS_IN_MONTH_def)
qed

lemma days_in_month_bounds: "1 \<le> m \<Longrightarrow> m \<le> 12 \<Longrightarrow> 28 \<le> days_in_month y m \<and> days_in_month y m \<le> 31"
  by (drule (1) month_cases, elim disjE) (simp_all add: days_in_month_def DAYS_IN_MONTH_def)

lemma days_before_month_mono:
  assumes "1 \<le> m" "m < m'" "m' \<le> 12"
  shows "days_before_month y m + days_in_month y m \<le> days_before_month y m'"
proof -
  have "\<And>m'. m < m' \<Longrightarrow> m' \<le> 12 \<Longrightarrow> nat (m' - m) = Suc k \<Longrightarrow> days_before_month y m + days_in_month y m \<le> days_before_month y m'" for k
  proof (induction k)
    case 0
    then have "m' = m + 1" by arith
    then show ?case using days_before_month_step [of m y] assms(1) 0 by simp
  next
    case (Suc k)
    have a: "m < m' - 1" "m' - 1 \<le> 12" "nat (m' - 1 - m) = Suc k" using Suc.prems by arith+
    have "days_before_month y m + days_in_month y m \<le> days_before_month y (m' - 1)"
      by (rule Suc.IH [OF a])
    moreover have "days_before_month y (m' - 1 + 1) = days_before_month y (m' - 1) + days_in_month y (m' - 1)"
      by (rule days_before_month_step) (use assms a Suc.prems in arith)+
    moreover have "0 \<le> days_in_month y (m' - 1)"
      using days_in_month_bounds [of "m' - 1" y] assms a by arith
    ultimately show ?case by simp
  qed
  moreover obtain k where "nat (m' - m) = Suc k" using assms(2) by (cases "nat (m' - m)") auto
  ultimately show ?thesis using assms by blast
qed

lemma days_before_month_first: "days_before_month y 1 = 0"
  by (simp add: days_before_month_def DAYS_BEFORE_MONTH_def)

lemma days_before_month_last: "days_before_month y 12 + days_in_month y 12 = (if is_leap y then 366 else 365)"
  by (simp add: days_before_month_def DAYS_BEFORE_MONTH_def days_in_month_def DAYS_IN_MONTH_def)

lemma days_before_month_nonneg: "1 \<le> m \<Longrightarrow> m \<le> 12 \<Longrightarrow> 0 \<le> days_before_month y m"
  by (drule (1) month_cases, elim disjE) (simp_all add: days_before_month_def DAYS_BEFORE_MONTH_def)

lemma day_of_year_bounds:
  assumes "valid_date y m d"
  shows "1 \<le> days_before_month y m + d" "days_before_month y m + d \<le> (if is_leap y then 366 else 365)"
proof -
  have m: "1 \<le> m" "m \<le> 12" and d: "1 \<le> d" "d \<le> days_in_month y m"
    using assms by (simp_all add: valid_date_def)
  show "1 \<le> days_before_month y m + d" using days_before_month_nonneg [OF m, of y] d by arith
  show "days_before_month y m + d \<le> (if is_leap y then 366 else 365)"
  proof (cases "m = 12")
    case True then show ?thesis using days_before_month_last [of y] d by simp
  next
    case False
    then have "days_before_month y m + days_in_month y m \<le> days_before_month y 12"
      using m by (intro days_before_month_mono) auto
    moreover have "0 \<le> days_in_month y 12" by (simp add: days_in_month_def DAYS_IN_MONTH_def)
    ultimately show ?thesis using days_before_month_last [of y] d by (simp split: if_splits)
  qed
qed

lemma day_of_year_less:
  assumes "valid_date y m d" "valid_date y m' d'" "m < m' \<or> (m = m' \<and> d < d')"
  shows "days_before_month y m + d < days_before_month y m' + d'"
proof (cases "m < m'")
  case True
  then have "days_before_month y m + days_in_month y m \<le> days_before_month y m'"
    using assms(1,2) by (intro days_before_month_mono) (auto simp: valid_date_def)
  then show ?thesis using assms(1,2) by (simp add: valid_date_def)
next
  case False then show ?thesis using assms(3) by auto
qed

lemma leap_after_century:
  assumes "y mod 4 = 0" "\<not> is_leap y"
  shows "is_leap (y + 4)"
proof -
  have c: "y mod 100 = 0" using assms by (auto simp: is_leap_def)
  have "(y + 4) mod 4 = 0" using assms(1) by simp
  moreover have "(y + 4) mod 100 = (y mod 100 + 4) mod 100" by (simp add: mod_add_left_eq)
  then have "(y + 4) mod 100 \<noteq> 0" using c by simp
  ultimately show ?thesis by (simp add: is_leap_def)
qed
lemma next_multiple_of_4: "\<exists>z::int. y < z \<and> z \<le> y + 4 \<and> z mod 4 = 0"
  by presburger

lemma leap_within_7:
  assumes "\<not> is_leap y"
  shows "\<exists>L. y < L \<and> L \<le> y + 7 \<and> is_leap L"
proof -
  obtain z where z: "y < z" "z \<le> y + 4" "z mod 4 = 0"
    using next_multiple_of_4 [of y] by (elim exE conjE)
  show ?thesis
  proof (cases "is_leap z")
    case True
    then show ?thesis using z(1,2) by (intro exI [of _ z]) simp
  next
    case False
    have l: "is_leap (z + 4)" using z(3) False by (rule leap_after_century)
    have "z \<noteq> y + 4"
    proof
      assume e: "z = y + 4"
      have "y mod 4 = 0" using z(3) unfolding e by simp
      then have "is_leap (y + 4)" using assms by (rule leap_after_century)
      then show False using False e by simp
    qed
    then have "z + 4 \<le> y + 7" using z(1,2) by arith
    then show ?thesis using l z(1,2) by (intro exI [of _ "z + 4"]) simp
  qed
qed

lemma roll_forward_finds:
  "valid_date L m d \<Longrightarrow> y0 \<le> L \<Longrightarrow>
     \<exists>L'. y0 \<le> L' \<and> L' \<le> L \<and> valid_date L' m d \<and>
          (\<forall>z. y0 \<le> z \<and> z < L' \<longrightarrow> \<not> valid_date z m d) \<and>
          roll_forward y0 m d = Some (Date L' m d)"
proof (induction "nat (L - y0)" arbitrary: y0)
  case 0
  then have "y0 = L" by simp
  then show ?case using 0
    by (intro exI [of _ L]) (auto simp add: roll_forward.simps [of L m d] datetime_def)
next
  case (Suc n)
  show ?case
  proof (cases "valid_date y0 m d")
    case True
    then show ?thesis using Suc.prems
      by (intro exI [of _ y0]) (auto simp add: roll_forward.simps [of y0 m d] datetime_def)
  next
    case False
    have "n = nat (L - (y0 + 1))" "y0 + 1 \<le> L" using Suc.hyps(2) by arith+
    from Suc.hyps(1) [OF this(1) Suc.prems(1) this(2)]
    obtain L' where L': "y0 + 1 \<le> L'" "L' \<le> L" "valid_date L' m d"
      "\<forall>z. y0 + 1 \<le> z \<and> z < L' \<longrightarrow> \<not> valid_date z m d"
      "roll_forward (y0 + 1) m d = Some (Date L' m d)" by blast
    have "\<forall>z. y0 \<le> z \<and> z < L' \<longrightarrow> \<not> valid_date z m d"
    proof (intro allI impI)
      fix z assume "y0 \<le> z \<and> z < L'"
      then have "z = y0 \<or> (y0 + 1 \<le> z \<and> z < L')" by arith
      then show "\<not> valid_date z m d" using False L'(4) by blast
    qed
    moreover have "roll_forward y0 m d = Some (Date L' m d)"
      using False L'(5) by (simp add: roll_forward.simps [of y0 m d] datetime_def)
    ultimately show ?thesis using L' by (intro exI [of _ L']) simp
  qed
qed

lemma valid_feb_29: "valid_date z 2 29 \<longleftrightarrow> 1 \<le> z \<and> z \<le> 9999 \<and> is_leap z"
  by (simp add: valid_date_def days_in_month_def DAYS_IN_MONTH_def MINYEAR_def MAXYEAR_def)

lemma leap_9996: "is_leap 9996" by (simp add: is_leap_def)

lemma days_before_month_next_year: "days_before_month (y + 1) m \<le> days_before_month y m + 1"
  by (simp add: days_before_month_def)

lemma days_until_same_year:
  assumes v: "valid_date y m d" and r: "valid_date y rm rd"
    and np: "\<not> date_less (Date y m d) (Date y rm rd)"
  shows "0 \<le> days_between (Date y m d) (Date y rm rd)"
    and "days_between (Date y m d) (Date y rm rd) \<le> 365"
    and "days_between (Date y m d) (Date y rm rd) = 0 \<longleftrightarrow> d = rd \<and> m = rm"
proof -
  have n: "days_between (Date y m d) (Date y rm rd)
             = (days_before_month y m + d) - (days_before_month y rm + rd)"
    by (simp add: days_between_def toordinal_def)
  have b1: "days_before_month y m + d \<le> 366"
    using day_of_year_bounds(2) [OF v] by (simp split: if_splits)
  have b2: "1 \<le> days_before_month y rm + rd" by (rule day_of_year_bounds(1) [OF r])
  show "days_between (Date y m d) (Date y rm rd) \<le> 365" using n b1 b2 by arith
  show "0 \<le> days_between (Date y m d) (Date y rm rd)"
    and "days_between (Date y m d) (Date y rm rd) = 0 \<longleftrightarrow> d = rd \<and> m = rm"
  proof -
    have "\<not> (m < rm \<or> (m = rm \<and> d < rd))" using np by (simp add: date_less_def)
    then have "(m = rm \<and> d = rd) \<or> (rm < m \<or> (rm = m \<and> rd < d))" by arith
    then consider (eq) "m = rm" "d = rd" | (gt) "rm < m \<or> (rm = m \<and> rd < d)"
      by blast
    then have "0 \<le> days_between (Date y m d) (Date y rm rd) \<and>
       (days_between (Date y m d) (Date y rm rd) = 0 \<longleftrightarrow> d = rd \<and> m = rm)"
    proof cases
      case eq then show ?thesis by (simp add: days_between_def)
    next
      case gt
      have "days_before_month y rm + rd < days_before_month y m + d"
        by (rule day_of_year_less [OF r v gt])
      moreover have "\<not> (d = rd \<and> m = rm)" using gt by auto
      ultimately show ?thesis using n by simp
    qed
    then show "0 \<le> days_between (Date y m d) (Date y rm rd)"
      and "days_between (Date y m d) (Date y rm rd) = 0 \<longleftrightarrow> d = rd \<and> m = rm" by simp_all
  qed
qed

lemma days_until_next_year:
  assumes v: "valid_date y m d" and v': "valid_date (y + 1) m d" and r: "valid_date y rm rd"
    and p: "date_less (Date y m d) (Date y rm rd)"
  shows "1 \<le> days_between (Date (y + 1) m d) (Date y rm rd)"
    and "days_between (Date (y + 1) m d) (Date y rm rd) \<le> 366"
    and "\<not> (d = rd \<and> m = rm)"
proof -
  define len :: int where "len = (if is_leap y then 366 else 365)"
  have n: "days_between (Date (y + 1) m d) (Date y rm rd)
             = len + (days_before_month (y + 1) m + d) - (days_before_month y rm + rd)"
    by (simp add: days_between_def toordinal_def days_before_year_step len_def)
  have lt: "m < rm \<or> (m = rm \<and> d < rd)" using p by (simp add: date_less_def)
  have a: "days_before_month y m + d < days_before_month y rm + rd"
    by (rule day_of_year_less [OF v r lt])
  have b: "days_before_month y rm + rd \<le> len"
    using day_of_year_bounds(2) [OF r] by (simp add: len_def)
  have c: "1 \<le> days_before_month (y + 1) m + d" by (rule day_of_year_bounds(1) [OF v'])
  have e: "days_before_month (y + 1) m \<le> days_before_month y m + 1"
    by (rule days_before_month_next_year)
  have l: "len \<le> 366" by (simp add: len_def)
  show "1 \<le> days_between (Date (y + 1) m d) (Date y rm rd)" using n b c by arith
  show "days_between (Date (y + 1) m d) (Date y rm rd) \<le> 366" using n a e l by arith
  show "\<not> (d = rd \<and> m = rm)" using lt by auto
qed


lemma leap_year_ahead:
  assumes "\<not> is_leap y" "1 \<le> y" "y \<le> 9995"
  shows "\<exists>L. y < L \<and> L \<le> y + 7 \<and> valid_date L 2 29"
proof (cases "y \<le> 9992")
  case True
  obtain L where L: "y < L" "L \<le> y + 7" "is_leap L"
    using leap_within_7 [OF assms(1)] by (elim exE conjE)
  have "valid_date L 2 29" using L True assms(2) by (simp add: valid_feb_29)
  then show ?thesis using L by (intro exI [of _ L]) simp
next
  case False
  have "valid_date 9996 2 29" using leap_9996 by (simp add: valid_feb_29)
  then show ?thesis using False assms(3) by (intro exI [of _ 9996]) simp
qed


section \<open>Days until the next birthday\<close>

text \<open>
  Claim C2 (as amended). For a day/month pair that exists in the year of the reference date,
  and also in the following year when it has already passed in the reference year,
  \<^verbatim>\<open>calculate_days_until_birthday\<close> returns a number of days between 0 and 366, and it
  returns 0 exactly when \<^verbatim>\<open>check_if_birthday_today\<close> holds. This covers every pair but
  29/02 at every reference date before year 9999, and 29/02 up to 29 February of a leap year.
\<close>

theorem days_until_in_range:
  assumes ref: "well_formed_date ref"
    and this_year: "valid_date (dt_year ref) month day"
    and next_year: "date_less (Date (dt_year ref) month day) ref \<longrightarrow> valid_date (dt_year ref + 1) month day"
  shows "\<exists>n. calculate_days_until_birthday now (day, month) (Some ref) = Some n \<and>
            0 \<le> n \<and> n \<le> 366 \<and>
            (n = 0 \<longleftrightarrow> check_if_birthday_today now (day, month) (Some ref))"
proof -
  obtain y rm rd where r: "ref = Date y rm rd" by (cases ref)
  have vr: "valid_date y rm rd" using ref r by (simp add: well_formed_date_def)
  have v: "valid_date y month day" using this_year r by simp
  have chk: "check_if_birthday_today now (day, month) (Some ref) \<longleftrightarrow> day = rd \<and> month = rm"
    by (simp add: check_if_birthday_today_def r)
  show ?thesis
  proof (cases "date_less (Date y month day) (Date y rm rd)")
    case True
    then have v': "valid_date (y + 1) month day" using next_year r by simp
    have "calculate_days_until_birthday now (day, month) (Some ref)
            = Some (days_between (Date (y + 1) month day) (Date y rm rd))"
      using True v v' by (simp add: calculate_days_until_birthday_def next_occurrence_def datetime_def r)
    then show ?thesis
      using days_until_next_year [OF v v' vr True] chk by simp
  next
    case False
    have "calculate_days_until_birthday now (day, month) (Some ref)
            = Some (days_between (Date y month day) (Date y rm rd))"
      using False v by (simp add: calculate_days_until_birthday_def next_occurrence_def datetime_def r)
    then show ?thesis
      using days_until_same_year [OF v vr False] chk by simp
  qed
qed


theorem days_until_in_range_witness:
  "well_formed_date (Date 2024 12 26) \<and> valid_date 2024 12 25 \<and>
   date_less (Date 2024 12 25) (Date 2024 12 26) \<and> valid_date (2024 + 1) 12 25 \<and>
   (\<exists>n. calculate_days_until_birthday (Date 2000 1 1) (25, 12) (Some (Date 2024 12 26)) = Some n \<and>
        0 \<le> n \<and> n \<le> 366 \<and>
        (n = 0 \<longleftrightarrow> check_if_birthday_today (Date 2000 1 1) (25, 12) (Some (Date 2024 12 26))))"
proof -
  have h1: "well_formed_date (Date 2024 12 26)"
    by (simp add: well_formed_date_def valid_date_def MINYEAR_def MAXYEAR_def days_in_month_def
        DAYS_IN_MONTH_def)
  have h2: "valid_date (dt_year (Date 2024 12 26)) 12 25"
    by (simp add: valid_date_def MINYEAR_def MAXYEAR_def days_in_month_def DAYS_IN_MONTH_def)
  have h3: "valid_date (dt_year (Date 2024 12 26) + 1) 12 25"
    by (simp add: valid_date_def MINYEAR_def MAXYEAR_def days_in_month_def DAYS_IN_MONTH_def)
  have h4: "date_less (Date 2024 12 25) (Date 2024 12 26)" by (simp add: date_less_def)
  show ?thesis
    using days_until_in_range [OF h1 h2, of "Date 2000 1 1"] h1 h2 h3 h4 by simp
qed

text \<open>
  Claim C2 as stated fails for the calendar-valid pair 29/02: from 1 March 2021 the next
  29 February is that of 2024, 1095 days ahead.
\<close>

theorem days_until_exceeds_366_counterexample:
  "calculate_days_until_birthday (Date 2021 3 1) (29, 2) (Some (Date 2021 3 1)) = Some 1095 \<and>
   valid_date 2024 2 29 \<and> well_formed_date (Date 2021 3 1) \<and> \<not> (1095 \<le> (366::int))"
  by code_simp

text \<open>
  Claim C3 (as amended). For the birthday 29/02 and a reference date in a year without a
  29 February, up to year 9995, the roll-forward loop of \<^verbatim>\<open>calculate_days_until_birthday\<close>
  ends: it stops at the first leap year after the reference year, which is at most 7 years
  later, and the function returns the number of days from the reference date to 29 February
  of that year.
\<close>

theorem feb29_rolls_to_next_leap_year:
  assumes ref: "well_formed_date ref"
    and nonleap: "\<not> is_leap (dt_year ref)"
    and bound: "dt_year ref \<le> 9995"
  shows "\<exists>L. dt_year ref < L \<and> L \<le> dt_year ref + 7 \<and> is_leap L \<and>
            (\<forall>z. dt_year ref < z \<and> z < L \<longrightarrow> \<not> is_leap z) \<and>
            roll_forward (dt_year ref + 1) 2 29 = Some (Date L 2 29) \<and>
            calculate_days_until_birthday now (29, 2) (Some ref)
              = Some (toordinal (Date L 2 29) - toordinal ref)"
proof -
  let ?y = "dt_year ref"
  have y1: "1 \<le> ?y" using ref by (simp add: well_formed_date_def valid_date_def MINYEAR_def)
  obtain L0 where L0: "?y < L0" "L0 \<le> ?y + 7" "valid_date L0 2 29"
    using leap_year_ahead [OF nonleap y1 bound] by (elim exE conjE)
  have "?y + 1 \<le> L0" using L0(1) by simp
  from roll_forward_finds [OF L0(3) this]
  obtain L where L: "?y + 1 \<le> L" "L \<le> L0" "valid_date L 2 29"
    "\<forall>z. ?y + 1 \<le> z \<and> z < L \<longrightarrow> \<not> valid_date z 2 29"
    "roll_forward (?y + 1) 2 29 = Some (Date L 2 29)" by (elim exE conjE)
  have leapL: "is_leap L" and L9999: "L \<le> 9999" using L(3) by (simp_all add: valid_feb_29)
  have none: "\<forall>z. ?y < z \<and> z < L \<longrightarrow> \<not> is_leap z"
  proof (intro allI impI)
    fix z assume z: "?y < z \<and> z < L"
    then have "\<not> valid_date z 2 29" using L(4) by simp
    moreover have "1 \<le> z" "z \<le> 9999" using z y1 L9999 by simp_all
    ultimately show "\<not> is_leap z" by (simp add: valid_feb_29)
  qed
  have "\<not> valid_date ?y 2 29" using nonleap by (simp add: valid_feb_29)
  then have "next_occurrence (29, 2) ref = Some (Date L 2 29)"
    using L(5) by (simp add: next_occurrence_def datetime_def)
  then have "calculate_days_until_birthday now (29, 2) (Some ref)
              = Some (toordinal (Date L 2 29) - toordinal ref)"
    by (simp add: calculate_days_until_birthday_def days_between_def)
  then show ?thesis
    using L(1,2,5) L0(2) leapL none by (intro exI [of _ L]) simp
qed


theorem feb29_rolls_to_next_leap_year_witness:
  "well_formed_date (Date 2023 3 1) \<and> \<not> is_leap 2023 \<and> (2023::int) \<le> 9995 \<and>
   (\<exists>L. 2023 < L \<and> L \<le> 2023 + 7 \<and> is_leap L \<and>
        (\<forall>z. 2023 < z \<and> z < L \<longrightarrow> \<not> is_leap z) \<and>
        roll_forward (2023 + 1) 2 29 = Some (Date L 2 29) \<and>
        calculate_days_until_birthday (Date 2023 3 1) (29, 2) (Some (Date 2023 3 1))
          = Some (toordinal (Date L 2 29) - toordinal (Date 2023 3 1)))"
proof -
  have h1: "well_formed_date (Date 2023 3 1)"
    by (simp add: well_formed_date_def valid_date_def MINYEAR_def MAXYEAR_def days_in_month_def
        DAYS_IN_MONTH_def)
  have h2: "\<not> is_leap (dt_year (Date 2023 3 1))" by (simp add: is_leap_def)
  have h3: "dt_year (Date 2023 3 1) \<le> 9995" by simp
  show ?thesis
    using feb29_rolls_to_next_leap_year [OF h1 h2 h3, of "Date 2023 3 1"] h1 h2 by simp
qed


text \<open>
  Claim C3 as stated bounds the search by 4 years. From 1 March 2097 the loop passes 2100,
  which is not a leap year, and stops at 2104, 7 years after the reference year.
\<close>

theorem feb29_seven_years_counterexample:
  "well_formed_date (Date 2097 3 1) \<and> \<not> is_leap 2097 \<and>
   next_occurrence (29, 2) (Date 2097 3 1) = Some (Date 2104 2 29) \<and>
   calculate_days_until_birthday (Date 2097 3 1) (29, 2) (Some (Date 2097 3 1)) = Some 2555 \<and>
   \<not> (2104 \<le> 2097 + (4::int))"
  by code_simp

section \<open>Dependence on the clock\<close>



section \<open>Replacing a placeholder keeps what is around it\<close>

lemma prefix_hd_eq: "old \<noteq> [] \<Longrightarrow> prefix old (c # cs) \<Longrightarrow> hd old = c"
  by (cases old) auto

lemma str_replace_keeps_prefix:
  "old \<noteq> [] \<Longrightarrow> hd old \<notin> set t \<Longrightarrow> prefix t s \<Longrightarrow> prefix t (str_replace old new s)"
proof (induction t arbitrary: s)
  case Nil
  then show ?case by simp
next
  case (Cons a t)
  then obtain s' where s: "s = a # s'" and p: "prefix t s'" by (cases s) auto
  have "\<not> prefix old (a # s')" using prefix_hd_eq [of old a s'] Cons.prems(1,2) by auto
  then have "str_replace old new s = a # str_replace old new s'" using Cons.prems(1) s by simp
  moreover have "prefix t (str_replace old new s')" using Cons.IH [OF Cons.prems(1) _ p] Cons.prems(2) by simp
  ultimately show ?case by simp
qed

lemma sublist_behind_prefix:
  assumes "prefix old s" "sublist t s" "t \<noteq> []" "hd t \<notin> set old"
  shows "sublist t (drop (length old) s)"
proof -
  obtain ps ss where s: "s = ps @ t @ ss" using assms(2) by (auto simp: sublist_def)
  obtain rest where r: "s = old @ rest" using assms(1) by (auto simp: prefix_def)
  have "length old \<le> length ps"
  proof (rule ccontr)
    assume "\<not> length old \<le> length ps"
    then have l: "length ps < length old" by simp
    have "s ! length ps = hd t" using s assms(3) by (cases t) (auto simp: nth_append)
    moreover have "s ! length ps = old ! length ps" using r l by (simp add: nth_append)
    ultimately have "hd t \<in> set old" using l by (metis nth_mem)
    then show False using assms(4) by simp
  qed
  then have "drop (length old) s = drop (length old) ps @ t @ ss" using s by simp
  then show ?thesis by (auto simp: sublist_def)
qed

lemma str_replace_keeps:
  "old \<noteq> [] \<Longrightarrow> t \<noteq> [] \<Longrightarrow> hd old \<notin> set t \<Longrightarrow> hd t \<notin> set old \<Longrightarrow>
     sublist t s \<Longrightarrow> sublist t (str_replace old new s)"
proof (induction old new s rule: str_replace.induct)
  case (1 old new)
  then show ?case by simp
next
  case (2 old new c cs)
  note old = "2.prems"(1) and t = "2.prems"(2) and ho = "2.prems"(3) and ht = "2.prems"(4)
  show ?case
  proof (cases "prefix old (c # cs)")
    case True
    have "sublist t (drop (length old) (c # cs))"
      by (rule sublist_behind_prefix [OF True "2.prems"(5) t ht])
    moreover have "drop (length old) (c # cs) = drop (length old - 1) cs"
      using old by (cases old) auto
    ultimately have "sublist t (drop (length old - 1) cs)" by simp
    then have "sublist t (str_replace old new (drop (length old - 1) cs))"
      by (rule "2.IH"(2) [OF old True old t ho ht])
    then have "sublist t (new @ str_replace old new (drop (length old - 1) cs))"
      by (metis sublist_append_leftI sublist_order.order_trans)
    then show ?thesis using True old by simp
  next
    case False
    have r: "str_replace old new (c # cs) = c # str_replace old new cs"
      using False old by simp
    from "2.prems"(5) have "prefix t (c # cs) \<or> sublist t cs" by (simp add: sublist_Cons_right)
    then show ?thesis
    proof
      assume "prefix t (c # cs)"
      then have "prefix t (str_replace old new (c # cs))"
        by (rule str_replace_keeps_prefix [OF old ho])
      then show ?thesis by (rule prefix_imp_sublist)
    next
      assume "sublist t cs"
      then have "sublist t (str_replace old new cs)"
        by (rule "2.IH"(3) [OF old False old t ho ht])
      then show ?thesis unfolding r by (simp add: sublist_Cons_right)
    qed
  qed
qed

lemma str_replace_puts_new:
  "old \<noteq> [] \<Longrightarrow> sublist old s \<Longrightarrow> sublist new (str_replace old new s)"
proof (induction old new s rule: str_replace.induct)
  case (1 old new)
  then show ?case by simp
next
  case (2 old new c cs)
  note old = "2.prems"(1)
  show ?case
  proof (cases "prefix old (c # cs)")
    case True
    then show ?thesis using old by simp
  next
    case False
    then have "sublist old cs" using "2.prems"(2) by (simp add: sublist_Cons_right)
    then have "sublist new (str_replace old new cs)"
      by (rule "2.IH"(3) [OF old False old])
    then show ?thesis using False old by (simp add: sublist_Cons_right)
  qed
qed

lemma backup_messages_placeholders:
  "list_all (\<lambda>t. sublist ''{name}'' t \<and> sublist ''<!channel>'' t) BACKUP_MESSAGES"
  by code_simp

lemma backup_message_facts:
  "sublist ''{name}'' (BACKUP_MESSAGES ! (choice mod length BACKUP_MESSAGES))"
  "sublist ''<!channel>'' (BACKUP_MESSAGES ! (choice mod length BACKUP_MESSAGES))"
  "BACKUP_MESSAGES ! (choice mod length BACKUP_MESSAGES) \<in> set BACKUP_MESSAGES"
proof -
  have l: "length BACKUP_MESSAGES = 5" by (simp add: BACKUP_MESSAGES_def)
  then have i: "choice mod length BACKUP_MESSAGES < length BACKUP_MESSAGES" by simp
  then show m: "BACKUP_MESSAGES ! (choice mod length BACKUP_MESSAGES) \<in> set BACKUP_MESSAGES"
    by (rule nth_mem)
  show "sublist ''{name}'' (BACKUP_MESSAGES ! (choice mod length BACKUP_MESSAGES))"
    and "sublist ''<!channel>'' (BACKUP_MESSAGES ! (choice mod length BACKUP_MESSAGES))"
    using backup_messages_placeholders m by (auto simp: list_all_iff)
qed

lemma fallback_message_tokens:
  "sublist ''<!channel>'' (fallback_message choice name user_id)"
  "sublist (if truthy user_id then get_user_mention user_id else name)
     (fallback_message choice name user_id)"
  "fallback_message choice name user_id \<noteq> []"
proof -
  let ?t = "BACKUP_MESSAGES ! (choice mod length BACKUP_MESSAGES)"
  let ?m = "if truthy user_id then get_user_mention user_id else name"
  have f: "fallback_message choice name user_id = str_replace ''{name}'' ?m ?t"
    by (simp add: fallback_message_def Let_def)
  show c: "sublist ''<!channel>'' (fallback_message choice name user_id)"
    unfolding f by (rule str_replace_keeps [OF _ _ _ _ backup_message_facts(2)]) simp_all
  show "sublist ?m (fallback_message choice name user_id)"
    unfolding f by (rule str_replace_puts_new [OF _ backup_message_facts(1)]) simp
  show "fallback_message choice name user_id \<noteq> []"
    using c by auto
qed

lemma completion_loop_paths:
  "(msg_path (completion_loop generate choice announcement name user_id max_retries template retry_count calls) = Generated
      \<longrightarrow> is_valid user_id (msg_text (completion_loop generate choice announcement name user_id max_retries template retry_count calls))) \<and>
   (msg_path (completion_loop generate choice announcement name user_id max_retries template retry_count calls) = Unvalidated
      \<longrightarrow> \<not> is_valid user_id (msg_text (completion_loop generate choice announcement name user_id max_retries template retry_count calls))) \<and>
   (msg_path (completion_loop generate choice announcement name user_id max_retries template retry_count calls) = Fallback
      \<longrightarrow> msg_text (completion_loop generate choice announcement name user_id max_retries template retry_count calls)
            = fallback_message choice name user_id) \<and>
   (retry_count \<le> max_retries
      \<longrightarrow> msg_path (completion_loop generate choice announcement name user_id max_retries template retry_count calls) \<noteq> Unexpected_flow)"
proof (induction generate choice announcement name user_id max_retries template retry_count calls
    rule: completion_loop.induct)
  case (1 generate choice announcement name user_id max_retries template retry_count calls)
  show ?case
  proof (cases "retry_count \<le> max_retries")
    case False
    then show ?thesis by (simp add: completion_loop.simps [of _ _ _ _ _ max_retries _ retry_count])
  next
    case le: True
    show ?thesis
    proof (cases "generate template")
      case Raises
      then show ?thesis using le
        by (simp add: completion_loop.simps [of generate _ _ _ _ max_retries template retry_count])
    next
      case (Reply raw)
      show ?thesis
      proof (cases "is_valid user_id (fix_slack_formatting raw)")
        case True
        then show ?thesis using le Reply
          by (simp add: completion_loop.simps [of generate _ _ _ _ max_retries template retry_count])
      next
        case nv: False
        show ?thesis
        proof (cases "retry_count < max_retries")
          case True
          have e: "completion_loop generate choice announcement name user_id max_retries template retry_count calls
               = completion_loop generate choice announcement name user_id max_retries
                   (template @ [(Assistant, fix_slack_formatting raw),
                      (User, clarification (join '', '' (validation_errors user_id (fix_slack_formatting raw)))
                               (if truthy user_id then get_user_mention user_id else name))])
                   (retry_count + 1) (Suc calls)"
            using le Reply nv True
            by (subst completion_loop.simps) (simp add: Let_def)
          show ?thesis
            unfolding e using "1.IH" [OF le Reply refl nv True refl refl] True by simp
        next
          case False
          then show ?thesis using le Reply nv
            by (simp add: completion_loop.simps [of generate _ _ _ _ max_retries template retry_count])
        qed
      qed
    qed
  qed
qed

section \<open>The composer's guarantees\<close>

text \<open>
  Claim C6. When the backend raises on a call of the retry loop, whichever call it is, the
  loop makes no further call and returns at once: the text is a message of
  \<^verbatim>\<open>BACKUP_MESSAGES\<close> in which \<^verbatim>\<open>{name}\<close> is replaced by the mention (the mention token
  \<^verbatim>\<open><@id>\<close> when a user id is given), it is not empty and it contains the mention. The
  loop is entered with \<open>retry_count \<le> max_retries\<close>; \<open>completion\<close> enters it with no retry
  and no call made.
\<close>

theorem backend_raises_gives_fallback:
  assumes "generate template = Raises" and "retry_count \<le> max_retries"
  shows "completion_loop generate choice announcement name user_id max_retries template retry_count calls
           = \<lparr>msg_text = fallback_message choice name user_id, msg_path = Fallback,
              backend_calls = Suc calls\<rparr> \<and>
         (\<exists>t \<in> set BACKUP_MESSAGES.
            fallback_message choice name user_id
              = str_replace ''{name}'' (if truthy user_id then get_user_mention user_id else name) t) \<and>
         fallback_message choice name user_id \<noteq> [] \<and>
         sublist (if truthy user_id then get_user_mention user_id else name)
           (fallback_message choice name user_id)"
proof -
  have "completion_loop generate choice announcement name user_id max_retries template retry_count calls
           = \<lparr>msg_text = fallback_message choice name user_id, msg_path = Fallback,
              backend_calls = Suc calls\<rparr>"
    using assms by (subst completion_loop.simps) simp
  moreover have "\<exists>t \<in> set BACKUP_MESSAGES.
            fallback_message choice name user_id
              = str_replace ''{name}'' (if truthy user_id then get_user_mention user_id else name) t"
    using backup_message_facts(3) [where choice=choice]
    by (intro bexI [of _ "BACKUP_MESSAGES ! (choice mod length BACKUP_MESSAGES)"])
       (simp_all add: fallback_message_def Let_def)
  ultimately show ?thesis
    using fallback_message_tokens(2,3) [where choice=choice and name=name and user_id=user_id] by simp
qed

theorem backend_raises_gives_fallback_witness:
  "backend_down [] = Raises \<and> (0::int) \<le> 2 \<and>
   completion backend_down 0 ''none'' [] ''Ann'' (Some ''U1'') 2
     = \<lparr>msg_text = fallback_message 0 ''Ann'' (Some ''U1''), msg_path = Fallback,
        backend_calls = Suc 0\<rparr> \<and>
   fallback_message 0 ''Ann'' (Some ''U1'') \<noteq> [] \<and>
   sublist ''<@U1>'' (fallback_message 0 ''Ann'' (Some ''U1''))"
proof -
  have h1: "backend_down [] = Raises" by (simp add: backend_down_def)
  have h2: "(0::int) \<le> 2" by simp
  show ?thesis
    using backend_raises_gives_fallback [where generate=backend_down and template="[]"
        and retry_count=0 and max_retries=2 and choice=0 and announcement="''none''"
        and name="''Ann''" and user_id="Some ''U1''" and calls=0, OF h1 h2] h1
    by (simp add: completion_def truthy_def get_user_mention_def)
qed

text \<open>
  Claim C1 (as amended). The text that \<^verbatim>\<open>completion\<close> returns contains \<^verbatim>\<open><!channel>\<close> and,
  when a user id is given, the mention token, whenever it is a reply that passed the
  validation (at the first attempt or at a retry) or a fallback message. When the last
  allowed attempt fails the validation the reply is returned as it is, and it lacks one
  of the two tokens. With \<open>max_retries\<close> not negative the loop always returns.
\<close>

theorem completion_tokens_by_path:
  "(msg_path (completion generate choice announcement template name user_id max_retries) = Generated \<or>
    msg_path (completion generate choice announcement template name user_id max_retries) = Fallback
      \<longrightarrow> sublist ''<!channel>''
            (msg_text (completion generate choice announcement template name user_id max_retries)) \<and>
          (truthy user_id
             \<longrightarrow> sublist (get_user_mention user_id)
                   (msg_text (completion generate choice announcement template name user_id max_retries)))) \<and>
   (msg_path (completion generate choice announcement template name user_id max_retries) = Unvalidated
      \<longrightarrow> \<not> (sublist ''<!channel>''
               (msg_text (completion generate choice announcement template name user_id max_retries)) \<and>
             (truthy user_id
                \<longrightarrow> sublist (get_user_mention user_id)
                      (msg_text (completion generate choice announcement template name user_id max_retries))))) \<and>
   (0 \<le> max_retries
      \<longrightarrow> msg_path (completion generate choice announcement template name user_id max_retries)
            \<noteq> Unexpected_flow)"
proof -
  let ?r = "completion generate choice announcement template name user_id max_retries"
  note p = completion_loop_paths [of generate choice announcement name user_id max_retries template 0 0,
      folded completion_def]
  have v: "is_valid user_id s \<longleftrightarrow>
      sublist ''<!channel>'' s \<and> (truthy user_id \<longrightarrow> sublist (get_user_mention user_id) s)" for s
    by (auto simp: is_valid_def)
  have f: "sublist ''<!channel>'' (msg_text ?r) \<and>
      (truthy user_id \<longrightarrow> sublist (get_user_mention user_id) (msg_text ?r))"
    if fb: "msg_path ?r = Fallback"
  proof -
    have e: "msg_text ?r = fallback_message choice name user_id" using p fb by blast
    have "sublist ''<!channel>'' (fallback_message choice name user_id)"
      by (rule fallback_message_tokens(1))
    moreover have "truthy user_id \<longrightarrow>
        sublist (get_user_mention user_id) (fallback_message choice name user_id)"
      using fallback_message_tokens(2) [where choice=choice and name=name and user_id=user_id]
      by (cases "truthy user_id") simp_all
    ultimately show ?thesis by (simp only: e simp_thms)
  qed
  show ?thesis using p f v by blast
qed

theorem completion_tokens_by_path_witness:
  "msg_path (completion backend_with_tokens 0 ''none'' [] ''Ann'' (Some ''U1'') 2) = Generated \<and>
   truthy (Some ''U1'') \<and>
   sublist ''<!channel>'' (msg_text (completion backend_with_tokens 0 ''none'' [] ''Ann'' (Some ''U1'') 2)) \<and>
   sublist (get_user_mention (Some ''U1''))
     (msg_text (completion backend_with_tokens 0 ''none'' [] ''Ann'' (Some ''U1'') 2))"
proof -
  have g: "msg_path (completion backend_with_tokens 0 ''none'' [] ''Ann'' (Some ''U1'') 2) = Generated"
    by code_simp
  have t: "truthy (Some ''U1'')" by (simp add: truthy_def)
  show ?thesis
    using completion_tokens_by_path [of backend_with_tokens 0 "''none''" "[]" "''Ann''" "Some ''U1''" 2] g t
    by simp
qed

text \<open>
  Claim C1 as stated fails on the path where the retries are used up: a backend whose
  replies never hold the tokens is called three times, and the last reply is returned.
\<close>

theorem completion_returns_text_without_tokens_counterexample:
  "completion backend_without_tokens 0 ''none'' [] ''Ann'' (Some ''U1'') 2
     = \<lparr>msg_text = ''Happy birthday!'', msg_path = Unvalidated, backend_calls = 3\<rparr> \<and>
   \<not> sublist ''<!channel>'' ''Happy birthday!'' \<and>
   \<not> sublist (get_user_mention (Some ''U1'')) ''Happy birthday!''"
  by code_simp

section \<open>The formatting step and the tokens\<close>

text \<open>
  Claim C8. \<^verbatim>\<open>fix_slack_formatting\<close> should keep every mention token and every
  \<^verbatim>\<open><!channel>\<close>. The substitution that removes tags spares a \<^verbatim>\<open><\<close> followed by
  \<^verbatim>\<open>@\<close>, \<^verbatim>\<open>!\<close> or \<^verbatim>\<open>#\<close>, but its group runs from any other \<^verbatim>\<open><\<close> to the next \<^verbatim>\<open>>\<close>,
  which can be the one that closes a token: the code loses the token in the two texts below.
\<close>

theorem fix_slack_formatting_breaks_token:
  "sublist ''<!channel>'' ''I <3 you <!channel>'' \<and>
   fix_slack_formatting ''I <3 you <!channel>'' = ''I 3 you <!channel'' \<and>
   \<not> sublist ''<!channel>'' (fix_slack_formatting ''I <3 you <!channel>'') \<and>
   sublist ''<@U123>'' ''Happy birthday <3 <@U123>!'' \<and>
   fix_slack_formatting ''Happy birthday <3 <@U123>!'' = ''Happy birthday 3 <@U123!'' \<and>
   \<not> sublist ''<@U123>'' (fix_slack_formatting ''Happy birthday <3 <@U123>!'')"
  by code_simp

section \<open>The searches find the leftmost match\<close>

lemma char_at_0 [simp]: "char_at (c # cs) 0 = Some c"
  by (simp add: char_at_def)

lemma char_at_Suc [simp]: "char_at (c # cs) (Suc i) = char_at cs i"
  by (simp add: char_at_def)


















section \<open>The result of \<^verbatim>\<open>extract_date\<close>\<close>



section \<open>The ledger: rotation, marking and reading\<close>

lemma delete_is_filter: "AList.delete k dir = filter (\<lambda>x. fst x \<noteq> k) dir"
  by (induction dir) auto

lemma map_of_distinct_in: "distinct (map fst dir) \<Longrightarrow> (f, e) \<in> set dir \<Longrightarrow> map_of dir f = Some e"
  by simp

lemma cleanup_loop_filter:
  "distinct names \<Longrightarrow>
   (\<And>f. f \<in> set names \<Longrightarrow> stale today f \<Longrightarrow> \<exists>content. map_of dir f = Some (File content)) \<Longrightarrow>
   cleanup_loop today names dir = filter (\<lambda>x. \<not> (fst x \<in> set names \<and> stale today (fst x))) dir"
proof (induction names arbitrary: dir)
  case Nil
  then show ?case by simp
next
  case (Cons f names)
  show ?case
  proof (cases "stale today f")
    case False
    have "cleanup_loop today (f # names) dir = cleanup_loop today names dir"
      using False by (auto simp add: stale_def)
    also have "\<dots> = filter (\<lambda>x. \<not> (fst x \<in> set names \<and> stale today (fst x))) dir"
      using Cons.prems by (intro Cons.IH) auto
    also have "\<dots> = filter (\<lambda>x. \<not> (fst x \<in> set (f # names) \<and> stale today (fst x))) dir"
      using False by (intro filter_cong) auto
    finally show ?thesis .
  next
    case True
    obtain content where c: "map_of dir f = Some (File content)"
      using Cons.prems(2) [of f] True by auto
    have d: "cleanup_loop today (f # names) dir = cleanup_loop today names (AList.delete f dir)"
      using True c by (simp add: stale_def)
    have "cleanup_loop today names (AList.delete f dir)
            = filter (\<lambda>x. \<not> (fst x \<in> set names \<and> stale today (fst x))) (AList.delete f dir)"
    proof (rule Cons.IH)
      show "distinct names" using Cons.prems(1) by simp
    next
      fix g assume g: "g \<in> set names" "stale today g"
      then have "g \<noteq> f" using Cons.prems(1) by auto
      then have "map_of (AList.delete f dir) g = map_of dir g" by (simp add: delete_conv)
      then show "\<exists>content. map_of (AList.delete f dir) g = Some (File content)"
        using Cons.prems(2) [of g] g by simp
    qed
    also have "\<dots> = filter (\<lambda>x. \<not> (fst x \<in> set (f # names) \<and> stale today (fst x))) dir"
      using True unfolding delete_is_filter filter_filter by (intro filter_cong) auto
    finally show ?thesis using d by simp
  qed
qed

lemma cleanup_removes_stale:
  assumes "distinct (map fst dir)"
    and "\<And>f. f \<in> fst ` set dir \<Longrightarrow> stale today f \<Longrightarrow> map_of dir f \<noteq> Some Denied"
  shows "cleanup_old_announcement_files today dir = filter (\<lambda>x. \<not> stale today (fst x)) dir"
proof -
  have "cleanup_loop today (map fst dir) dir
          = filter (\<lambda>x. \<not> (fst x \<in> set (map fst dir) \<and> stale today (fst x))) dir"
  proof (rule cleanup_loop_filter [OF assms(1)])
    fix f assume f: "f \<in> set (map fst dir)" "stale today f"
    then obtain e where e: "(f, e) \<in> set dir" by auto
    then have m: "map_of dir f = Some e" using assms(1) by simp
    have "e \<noteq> Denied" using assms(2) [of f] f m by auto
    then show "\<exists>content. map_of dir f = Some (File content)" using m by (cases e) auto
  qed
  also have "\<dots> = filter (\<lambda>x. \<not> stale today (fst x)) dir"
    by (intro filter_cong) auto
  finally show ?thesis by (simp add: cleanup_old_announcement_files_def)
qed






lemma mark_denied:
  "map_of dir (announced_file today) = Some Denied \<Longrightarrow> mark_birthday_announced today u dir = dir"
  by (simp add: mark_birthday_announced_def)





lemma announced_lines_empty: "announced_lines [] = []"
  by (simp add: announced_lines_def)





lemma marks_denied:
  "map_of dir (announced_file today) = Some Denied \<Longrightarrow>
     foldl (\<lambda>d x. mark_birthday_announced today (fst x) d) dir xs = dir"
  by (induction xs) (simp_all add: mark_denied)


section \<open>The loop of the daily scheduler\<close>






lemma daily_loop_trace_prefix:
  "prefix (trace w) (trace (snd (daily_loop e channel today moment ann bs n w)))"
proof (induction bs arbitrary: n w)
  case Nil
  then show ?case by simp
next
  case (Cons x bs)
  obtain u bd where x: "x = (u, bd)" by (cases x)
  show ?case
  proof (cases "date_to_words (bd_date bd) (bd_year bd)")
    case (Inl err)
    then show ?thesis using x Cons.IH by simp
  next
    case (Inr words)
    let ?w1 = "send_birthday_announcement e channel (env_username e u) u (bd_date bd) words
                 (bd_year bd) w"
    let ?w2 = "?w1\<lparr>tracking := mark_birthday_announced today u (tracking ?w1),
                    trace := trace ?w1 @ [Marked u]\<rparr>"
    have p: "prefix (trace w) (trace ?w2)"
      by (simp add: send_birthday_announcement_def Let_def)
    have "prefix (trace ?w2) (trace (snd (daily_loop e channel today moment ann bs (n + 1) ?w2)))"
      by (rule Cons.IH)
    then have "prefix (trace w) (trace (snd (daily_loop e channel today moment ann bs (n + 1) ?w2)))"
      using p prefix_order.trans by blast
    then show ?thesis using x Inr Cons.IH by (simp add: Let_def)
  qed
qed



lemma daily_trace_prefix:
  "prefix (trace w @ [Cleaned, Read_announced
             (get_announced_birthdays_today today
                (cleanup_old_announcement_files today (tracking w)))])
     (trace (snd (daily e channel today moment bs w)))"
proof -
  let ?w1 = "w\<lparr>tracking := cleanup_old_announcement_files today (tracking w),
               trace := trace w @ [Cleaned]\<rparr>"
  let ?ann = "get_announced_birthdays_today today (tracking ?w1)"
  let ?w2 = "?w1\<lparr>trace := trace ?w1 @ [Read_announced ?ann]\<rparr>"
  have "prefix (trace ?w2) (trace (snd (daily_loop e channel today moment ?ann bs 0 ?w2)))"
    by (rule daily_loop_trace_prefix)
  then show ?thesis by (simp add: daily_def Let_def)
qed



lemma concerns_announce_events:
  "filter (concerns u) (announce_events e channel x)
     = (if fst x = u then announce_events e channel x else [])"
  by (simp add: announce_events_def)

lemma events_of_others:
  "u \<notin> fst ` set D \<Longrightarrow> filter (concerns u) (concat (map (announce_events e channel) D)) = []"
  by (induction D) (auto simp: concerns_announce_events)

lemma events_of_subject:
  "distinct (map fst D) \<Longrightarrow> (u, bd) \<in> set D \<Longrightarrow>
     filter (concerns u) (concat (map (announce_events e channel) D))
       = announce_events e channel (u, bd)"
proof (induction D)
  case Nil
  then show ?case by simp
next
  case (Cons x D)
  show ?case
  proof (cases "x = (u, bd)")
    case True
    then have "u \<notin> fst ` set D" using Cons.prems(1) by simp
    then have "filter (concerns u) (concat (map (announce_events e channel) D)) = []"
      by (rule events_of_others)
    then show ?thesis using True by (simp add: concerns_announce_events)
  next
    case False
    then have i: "(u, bd) \<in> set D" using Cons.prems(2) by simp
    then have "u \<in> fst ` set D" by force
    then have "fst x \<noteq> u" using Cons.prems(1) by auto
    then show ?thesis using Cons.IH i Cons.prems(1) by (simp add: concerns_announce_events)
  qed
qed

lemma deliveries_by_concerns:
  "filter (is_delivery u) tr = filter (is_delivery u) (filter (concerns u) tr)"
proof (induction tr)
  case Nil
  then show ?case by simp
next
  case (Cons ev tr)
  then show ?case by (cases ev) auto
qed


lemma count_list_distinct:
  "distinct xs \<Longrightarrow> x \<in> set xs \<Longrightarrow> count_list xs x = 1"
  by (induction xs) (auto simp: count_list_0_iff)

lemma nothing_due_again:
  "filter (due moment (ann @ map fst (filter (due moment ann) bs))) bs = []"
proof -
  have "\<not> due moment (ann @ map fst (filter (due moment ann) bs)) x" if "x \<in> set bs" for x
  proof
    assume d: "due moment (ann @ map fst (filter (due moment ann) bs)) x"
    then have "due moment ann x" by (simp add: due_def)
    then have "fst x \<in> set (map fst (filter (due moment ann) bs))" using that by simp
    then show False using d by (simp add: due_def)
  qed
  then show ?thesis by (simp add: filter_empty_conv)
qed







section \<open>Rotation of the marker files\<close>

text \<open>
  Claim C5 (as amended). When \<^verbatim>\<open>os.remove\<close> raises for none of the stale marker names,
  \<^verbatim>\<open>cleanup_old_announcement_files\<close> removes exactly the entries with a stale name: no
  marker name other than today's remains in the tracking directory, and every other entry
  stays as it is. Within a run of \<^verbatim>\<open>daily\<close> the rotation comes first and the reading of the
  announced list next, on the directory that the rotation left.
\<close>

theorem rotation_removes_stale_markers:
  assumes "distinct (map fst dir)"
    and "list_all (\<lambda>x. stale today (fst x) \<longrightarrow> snd x \<noteq> Denied) dir"
  shows "cleanup_old_announcement_files today dir = filter (\<lambda>x. \<not> stale today (fst x)) dir \<and>
         list_all (\<lambda>x. \<not> stale today (fst x)) (cleanup_old_announcement_files today dir) \<and>
         prefix (trace w @ [Cleaned, Read_announced
                   (get_announced_birthdays_today today
                      (cleanup_old_announcement_files today (tracking w)))])
           (trace (snd (daily e channel today moment birthdays w)))"
proof -
  have r: "map_of dir f \<noteq> Some Denied" if "f \<in> fst ` set dir" "stale today f" for f
  proof
    assume "map_of dir f = Some Denied"
    then have "(f, Denied) \<in> set dir" by (rule map_of_SomeD)
    then show False using assms(2) that(2) by (auto simp: list_all_iff)
  qed
  have c: "cleanup_old_announcement_files today dir = filter (\<lambda>x. \<not> stale today (fst x)) dir"
    using cleanup_removes_stale [OF assms(1)] r by blast
  have "list_all (\<lambda>x. \<not> stale today (fst x)) (filter (\<lambda>x. \<not> stale today (fst x)) dir)"
    by (simp add: list_all_iff)
  then show ?thesis using c daily_trace_prefix by simp
qed

theorem rotation_removes_stale_markers_witness:
  "distinct (map fst [(''announced_2024-05-31.txt'', File ''U7''),
                      (''announced_2024-06-01.txt'', File ''U1''),
                      (''archive'', Denied)]) \<and>
   cleanup_old_announcement_files ''2024-06-01''
     [(''announced_2024-05-31.txt'', File ''U7''),
      (''announced_2024-06-01.txt'', File ''U1''),
      (''archive'', Denied)]
     = [(''announced_2024-06-01.txt'', File ''U1''), (''archive'', Denied)] \<and>
   prefix [Cleaned, Read_announced []]
     (trace (snd (daily env_chat_up ''general'' ''2024-06-01'' (Date 2024 6 1) june_birthdays
                    empty_world)))"
proof -
  let ?dir = "[(''announced_2024-05-31.txt'', File ''U7''),
               (''announced_2024-06-01.txt'', File ''U1''),
               (''archive'', Denied)]"
  have d: "distinct (map fst ?dir)" by simp
  have s: "list_all (\<lambda>x. stale ''2024-06-01'' (fst x) \<longrightarrow> snd x \<noteq> Denied) ?dir"
    by (simp add: stale_def announced_file_def)
  have f: "filter (\<lambda>x. \<not> stale ''2024-06-01'' (fst x)) ?dir
             = [(''announced_2024-06-01.txt'', File ''U1''), (''archive'', Denied)]"
    by (simp add: stale_def announced_file_def)
  have g: "get_announced_birthdays_today ''2024-06-01''
             (cleanup_old_announcement_files ''2024-06-01'' (tracking empty_world)) = []"
    by code_simp
  have t: "trace empty_world = []" by (simp add: empty_world_def)
  show ?thesis
    using rotation_removes_stale_markers [OF d s, of empty_world env_chat_up "''general''"
        "Date 2024 6 1" june_birthdays] d f g t
    by simp
qed

text \<open>
  Claim C5 as stated fails when a removal raises: the \<^verbatim>\<open>try\<close> is around the whole loop, so
  the loop ends at the first name that cannot be removed and the stale marker file behind
  it stays.
\<close>

theorem rotation_leaves_stale_marker_counterexample:
  "cleanup_old_announcement_files ''2024-06-01'' stuck_directory = stuck_directory \<and>
   stale ''2024-06-01'' ''announced_2024-05-31.txt'' \<and>
   map_of (cleanup_old_announcement_files ''2024-06-01'' stuck_directory)
     ''announced_2024-05-31.txt'' = Some (File [CHR ''U'', CHR ''7'', CHR 0x0A])"
  by code_simp

section \<open>The marker after an announcement\<close>




end
